theory Spec2Isabelle
  imports Main "HOL-Library.Sublist"
begin

section \<open>Text: the part of Python's \<open>str\<close> and \<open>re\<close> that actions.py uses\<close>

text \<open>
  A string is a list of code points, one \<open>char\<close> per code point, so the texts of the
  model are the Python strings whose code points are at most 255 (ASCII and Latin-1).
  On them \<open>str.lower()\<close> maps \<open>A\<close>..\<open>Z\<close> (codes 65 to 90) and the thirty upper case
  letters of Latin-1 (codes 192 to 222 without the multiplication sign 215) to the
  letter 32 codes higher, and keeps every other character.
\<close>

definition lower_char :: "char \<Rightarrow> char" where
  "lower_char c =
     (let n = (of_char c :: nat)
      in if (65 \<le> n \<and> n \<le> 90) \<or> (192 \<le> n \<and> n \<le> 222 \<and> n \<noteq> 215)
         then char_of (n + 32)
         else c)"

definition lower :: "string \<Rightarrow> string" where
  "lower s = map lower_char s"

text \<open>
  The characters up to code 255 for which \<open>str.isspace()\<close> holds, which are also the
  ones that \<open>\s\<close> matches in a \<open>str\<close> pattern and that \<open>str.strip()\<close> removes: codes 9
  to 13 (tab, line feed, vertical tab, form feed, carriage return), 28 to 31 (the four
  separator controls), 32 (space), 133 (next line) and 160 (no-break space).
\<close>

definition is_space :: "char \<Rightarrow> bool" where
  "is_space c =
     (let n = (of_char c :: nat)
      in (9 \<le> n \<and> n \<le> 13) \<or> (28 \<le> n \<and> n \<le> 32) \<or> n = 133 \<or> n = 160)"

text \<open>The character class \<open>[,\s]\<close> of line 28.\<close>

definition is_sep :: "char \<Rightarrow> bool" where
  "is_sep c = (c = CHR '','' \<or> is_space c)"

text \<open>
  \<open>s.replace(old, new)\<close>: scanning from the left, each occurrence of \<open>old\<close> found at the
  current position is replaced and the scan resumes behind it, so the occurrences
  replaced do not overlap. The empty pattern occurs before every character and at the
  end, so \<open>new\<close> is put there; every pattern of the source is non-empty.
\<close>

function replace :: "string \<Rightarrow> string \<Rightarrow> string \<Rightarrow> string" where
  "replace old new s =
     (if old = [] then new @ concat (map (\<lambda>c. c # new) s)
      else if s = [] then []
      else if take (length old) s = old then new @ replace old new (drop (length old) s)
      else hd s # replace old new (tl s))"
  by pat_completeness auto
termination
  by (relation "measure (\<lambda>(old, new, s). length s)") auto

declare replace.simps [simp del]

text \<open>
  \<open>re.split(r"[,\s]+", text)\<close>: the scanner walks the text once. \<open>cur\<close> holds the
  characters of the piece being read, newest first; \<open>in_sep\<close> says that the scanner is
  inside a run of separators, whose first character closed the previous piece. The
  piece before a leading run and the piece behind a trailing run are empty strings, as
  in Python.
\<close>

fun re_split_from :: "bool \<Rightarrow> string \<Rightarrow> string \<Rightarrow> string list" where
  "re_split_from in_sep cur [] = [rev cur]"
| "re_split_from in_sep cur (c # cs) =
     (if is_sep c
      then (if in_sep then re_split_from True cur cs else rev cur # re_split_from True [] cs)
      else re_split_from False (c # cur) cs)"

definition re_split :: "string \<Rightarrow> string list" where
  "re_split text = re_split_from False [] text"

text \<open>\<open>t.strip()\<close> removes the white space at both ends.\<close>

definition strip :: "string \<Rightarrow> string" where
  "strip t = rev (dropWhile is_space (rev (dropWhile is_space t)))"

text \<open>\<open>sep.join(xs)\<close>.\<close>

fun join :: "string \<Rightarrow> string list \<Rightarrow> string" where
  "join sep [] = []"
| "join sep [x] = x"
| "join sep (x # y # ys) = x @ sep @ join sep (y # ys)"

section \<open>The symptom extractor (lines 18 to 29)\<close>

text \<open>The fourth filler word is \<open>i\<close>, an apostrophe (code 39) and \<open>m\<close>.\<close>

definition filler_words :: "string list" where
  "filler_words = [''i have'', ''i am'', ''i feel'', [CHR ''i'', CHR 0x27, CHR ''m''], ''having'',
                   ''suffering from'', ''got'', ''with'', ''also'', ''and'']"

text \<open>The loop of lines 25 and 26: one pass of \<open>replace\<close> per filler word, in list order.\<close>

fun remove_fillers :: "string list \<Rightarrow> string \<Rightarrow> string" where
  "remove_fillers [] text = text"
| "remove_fillers (word # rest) text = remove_fillers rest (replace word '' '' text)"

text \<open>
  \<open>clean_symptom_input\<close> reads the module-level list \<open>all_symptoms\<close>; here it is the
  first argument.
\<close>

definition clean_symptom_input :: "string list \<Rightarrow> string \<Rightarrow> string list" where
  "clean_symptom_input all_syms user_input =
     (let text = lower user_input;
          text = remove_fillers filler_words text;
          tokens = re_split text
      in [strip t. t \<leftarrow> tokens, strip t \<in> set all_syms])"

subsection \<open>The extractor as the specification words it\<close>

text \<open>
  Splitting on runs of separators, stated on its own: a piece is a longest stretch
  without separator, and the text behind a run is split in the same way.
\<close>

function split_on_runs :: "string \<Rightarrow> string list" where
  "split_on_runs s =
     (case dropWhile (\<lambda>c. \<not> is_sep c) s of
        [] \<Rightarrow> [s]
      | _ # rest \<Rightarrow> takeWhile (\<lambda>c. \<not> is_sep c) s # split_on_runs (dropWhile is_sep rest))"
  by pat_completeness auto
termination
proof (relation "measure length")
  show "wf (measure length)" by simp
next
  fix s :: string and x21 x22
  assume "dropWhile (\<lambda>c. \<not> is_sep c) s = x21 # x22"
  then have "length x22 < length (dropWhile (\<lambda>c. \<not> is_sep c) s)" by simp
  also have "\<dots> \<le> length s" by (rule length_dropWhile_le)
  finally have "length x22 < length s" .
  moreover have "length (dropWhile is_sep x22) \<le> length x22" by (rule length_dropWhile_le)
  ultimately show "(dropWhile is_sep x22, s) \<in> measure length" by simp
qed

declare split_on_runs.simps [simp del]

text \<open>
  The contract \<open>extract(rawText, vocabulary)\<close> of the specification, step by step as
  its algorithm paragraph lists them.
\<close>

definition spec_extract :: "string \<Rightarrow> string list \<Rightarrow> string list" where
  "spec_extract rawText vocabulary =
     filter (\<lambda>t. t \<in> set vocabulary)
       (map strip
          (split_on_runs
             (foldl (\<lambda>text phrase. replace phrase '' '' text) (lower rawText) filler_words)))"

subsection \<open>Filler phrases across a joint\<close>

text \<open>
  The phrase \<open>f\<close> is spelt across the joint of \<open>t1\<close> and \<open>t2\<close> when \<open>f\<close> has a space
  with the text before it ending \<open>t1\<close> and the text behind it starting \<open>t2\<close>, as
  \<open>i have\<close> is across the joint of \<open>i\<close> and \<open>have\<close>.
\<close>

definition spelt_across :: "string \<Rightarrow> string \<Rightarrow> string \<Rightarrow> bool" where
  "spelt_across f t1 t2 =
     (\<exists>k\<in>{0..<length f}. f ! k = CHR '' '' \<and> suffix (take k f) t1 \<and> prefix (drop (Suc k) f) t2)"

section \<open>The reference tables (lines 12 to 16)\<close>

text \<open>
  \<open>disease_symptoms\<close> is the data frame read from disease_symptoms.csv. \<open>columns\<close> is
  its header, all names, in file order and as they are spelt in the file. A row holds
  the disease name of its \<open>prognosis\<close> cell and, under every other column name, an
  integer of 64 bits (the presence indicator, 1 or 0 in the data set); \<open>cells\<close> is not
  read at \<open>''prognosis''\<close>.
\<close>

record sd_row =
  prognosis :: string
  cells :: "string \<Rightarrow> int"

record sd_table =
  columns :: "string list"
  rows :: "sd_row list"

text \<open>\<open>disease_info\<close> is the data frame read from disease_info.csv, a list of rows.\<close>

record info_row =
  disease :: string
  description :: string
  treatment :: string
  prevention :: string

text \<open>Line 16: the names of the columns other than \<open>prognosis\<close>, in lower case.\<close>

definition all_symptoms :: "sd_table \<Rightarrow> string list" where
  "all_symptoms disease_symptoms =
     [lower col. col \<leftarrow> columns disease_symptoms, col \<noteq> ''prognosis'']"

text \<open>
  The value of a cell: a number under a symptom column, the disease name (a string)
  under \<open>prognosis\<close>.
\<close>

datatype cell = Num int | Str string

definition cell_at :: "sd_row \<Rightarrow> string \<Rightarrow> cell" where
  "cell_at r col = (if col = ''prognosis'' then Str (prognosis r) else Num (cells r col))"

section \<open>Session state, events and messages\<close>

text \<open>
  The four slots of the dialogue manager, each absent (\<open>None\<close>) or holding a value of
  its declared type: the list slots \<open>symptoms\<close>, \<open>possible_diseases\<close> and
  \<open>remaining_symptoms_to_ask\<close>, and the text slot \<open>predicted_disease\<close>.
\<close>

record slots =
  slot_symptoms :: "string list option"
  slot_possible_diseases :: "string list option"
  slot_predicted_disease :: "string option"
  slot_remaining_symptoms_to_ask :: "string list option"

text \<open>
  What an action reads of the tracker: the text of the latest message
  (\<open>tracker.latest_message.get("text", "")\<close>) and the slots (\<open>tracker.get_slot\<close>).
\<close>

record tracker =
  latest_message_text :: string
  get_slot :: slots

text \<open>
  \<open>SlotSet(name, value)\<close>, one constructor per slot name that the actions set.
\<close>

datatype event =
    SlotSet_symptoms "string list"
  | SlotSet_possible_diseases "string list"
  | SlotSet_predicted_disease string
  | SlotSet_remaining_symptoms_to_ask "string list"

text \<open>
  The texts handed to \<open>dispatcher.utter_message\<close>, one constructor per message of the
  source, with the values its f-string interpolates:
  \<^item> \<open>Rephrase\<close>: line 44, the request to rephrase;
  \<^item> \<open>NoMatch\<close>: line 60, no disease matches;
  \<^item> \<open>MostLikelyWithDetails d description treatment prevention\<close>: lines 71 to 74;
  \<^item> \<open>MostLikely d\<close>: line 76, the name only;
  \<^item> \<open>AskAlso listing\<close>: line 94, the question about further symptoms;
  \<^item> \<open>PossibleDiseases listing\<close>: line 98;
  \<^item> \<open>WhichDisease\<close>: line 117, the request to name the disease;
  \<^item> \<open>Details description treatment prevention\<close>: line 126;
  \<^item> \<open>NoDetails d\<close>: line 129, the name only.
\<close>

datatype message =
    Rephrase
  | NoMatch
  | MostLikelyWithDetails string string string string
  | MostLikely string
  | AskAlso string
  | PossibleDiseases string
  | WhichDisease
  | Details string string string
  | NoDetails string

text \<open>
  The outcome of one run of an action: the messages uttered, in order, and the list of
  events returned.
\<close>

type_synonym response = "message list \<times> event list"

text \<open>The exceptions a run can end with.\<close>

datatype error = KeyError | TypeError

text \<open>
  The dialogue manager applies the returned events to the slots, in order; a slot
  that no event names keeps its value.
\<close>

fun apply_event :: "event \<Rightarrow> slots \<Rightarrow> slots" where
  "apply_event (SlotSet_symptoms v) s = s\<lparr>slot_symptoms := Some v\<rparr>"
| "apply_event (SlotSet_possible_diseases v) s = s\<lparr>slot_possible_diseases := Some v\<rparr>"
| "apply_event (SlotSet_predicted_disease v) s = s\<lparr>slot_predicted_disease := Some v\<rparr>"
| "apply_event (SlotSet_remaining_symptoms_to_ask v) s = s\<lparr>slot_remaining_symptoms_to_ask := Some v\<rparr>"

definition apply_events :: "event list \<Rightarrow> slots \<Rightarrow> slots" where
  "apply_events evs s = foldl (\<lambda>s ev. apply_event ev s) s evs"

section \<open>The info lookup (lines 66 to 70 and 120 to 124)\<close>

text \<open>
  Both actions select the rows of \<open>disease_info\<close> whose \<open>disease\<close> cell equals the
  name and, unless the selection is empty, read the three fields of its first row.
\<close>

definition lookup :: "info_row list \<Rightarrow> string \<Rightarrow> (string \<times> string \<times> string) option" where
  "lookup disease_info name =
     (case filter (\<lambda>r. disease r = name) disease_info of
        [] \<Rightarrow> None
      | r # _ \<Rightarrow> Some (description r, treatment r, prevention r))"

section \<open>The action predict disease (lines 35 to 105)\<close>

text \<open>
  Line 49 builds \<open>list(set(stored_symptoms + new_symptoms))\<close>. The order in which
  Python enumerates a set of strings is not fixed by the program, so the list built
  is an argument of the model, and \<open>list_of_set us xs\<close> says that \<open>us\<close> is one of the
  lists that \<open>list(set(xs))\<close> can be: the elements of \<open>xs\<close>, each once.
\<close>

definition list_of_set :: "string list \<Rightarrow> string list \<Rightarrow> bool" where
  "list_of_set us xs = (distinct us \<and> set us = set xs)"

text \<open>
  The loop of lines 53 to 55; \<open>symptom\<close> is its loop variable \<open>sym\<close>. Selecting rows
  leaves the columns of the frame as they are, so \<open>candidate_diseases.columns\<close> is
  \<open>cols\<close> throughout.
\<close>

fun filter_candidates :: "string list \<Rightarrow> string list \<Rightarrow> sd_row list \<Rightarrow> sd_row list" where
  "filter_candidates cols [] candidate_diseases = candidate_diseases"
| "filter_candidates cols (symptom # rest) candidate_diseases =
     filter_candidates cols rest
       (if symptom \<in> set cols
        then filter (\<lambda>r. cell_at r symptom = Num 1) candidate_diseases
        else candidate_diseases)"

text \<open>
  The sum of a column of 64-bit integers is computed in 64 bits and wraps around:
  \<open>int64 n\<close> is the signed 64-bit value that the integer \<open>n\<close> wraps to.
\<close>

definition int64 :: "int \<Rightarrow> int" where
  "int64 n = (n + 2 ^ 63) mod 2 ^ 64 - 2 ^ 63"

text \<open>
  Line 89, \<open>candidate_diseases[sym].sum() > 0\<close>. A symptom column sums to a 64-bit
  integer. The sum of the \<open>prognosis\<close> column of a non-empty frame is a string, and
  comparing it with 0 raises TypeError; the sum of an empty column is 0.
\<close>

definition column_sum_positive :: "sd_row list \<Rightarrow> string \<Rightarrow> error + bool" where
  "column_sum_positive candidate_diseases symptom =
     (if symptom = ''prognosis''
      then (if candidate_diseases = [] then Inr False else Inl TypeError)
      else Inr (0 < int64 (sum_list (map (\<lambda>r. cells r symptom) candidate_diseases))))"

text \<open>
  The loop of lines 87 to 90 over the symptoms still to visit, \<open>remaining_symptoms\<close>
  being the list collected so far.
\<close>

fun collect_remaining ::
  "string list \<Rightarrow> string list \<Rightarrow> sd_row list \<Rightarrow> string list \<Rightarrow> string list \<Rightarrow> error + string list" where
  "collect_remaining updated_symptoms cols candidate_diseases [] remaining_symptoms =
     Inr remaining_symptoms"
| "collect_remaining updated_symptoms cols candidate_diseases (symptom # rest) remaining_symptoms =
     (if symptom \<notin> set updated_symptoms \<and> symptom \<in> set cols
      then (case column_sum_positive candidate_diseases symptom of
              Inl e \<Rightarrow> Inl e
            | Inr True \<Rightarrow>
                collect_remaining updated_symptoms cols candidate_diseases rest
                  (remaining_symptoms @ [symptom])
            | Inr False \<Rightarrow>
                collect_remaining updated_symptoms cols candidate_diseases rest remaining_symptoms)
      else collect_remaining updated_symptoms cols candidate_diseases rest remaining_symptoms)"

text \<open>Lines 66 to 76: the message of the branch with one disease left.\<close>

definition most_likely_message :: "info_row list \<Rightarrow> string \<Rightarrow> message" where
  "most_likely_message disease_info final_disease =
     (case lookup disease_info final_disease of
        Some (descr, treat, prev) \<Rightarrow>
          MostLikelyWithDetails final_disease descr treat prev
      | None \<Rightarrow> MostLikely final_disease)"

text \<open>
  \<open>ActionPredictDisease.run\<close>. The two tables are the module-level frames;
  \<open>updated_symptoms\<close> is the list that line 49 builds (see \<open>list_of_set\<close>), read
  only behind line 45. Line 57 raises KeyError when the frame has no \<open>prognosis\<close>
  column.
\<close>

definition action_predict_disease ::
  "sd_table \<Rightarrow> info_row list \<Rightarrow> tracker \<Rightarrow> string list \<Rightarrow> error + response" where
  "action_predict_disease disease_symptoms disease_info tracker updated_symptoms =
     (let user_message = latest_message_text tracker;
          new_symptoms = clean_symptom_input (all_symptoms disease_symptoms) user_message
      in if new_symptoms = [] then Inr ([Rephrase], [])
         else
           let candidate_diseases =
                 filter_candidates (columns disease_symptoms) updated_symptoms
                   (rows disease_symptoms)
           in if ''prognosis'' \<notin> set (columns disease_symptoms) then Inl KeyError
              else
                (case map prognosis candidate_diseases of
                   [] \<Rightarrow>
                     Inr ([NoMatch],
                          [SlotSet_symptoms updated_symptoms, SlotSet_possible_diseases []])
                 | [final_disease] \<Rightarrow>
                     Inr ([most_likely_message disease_info final_disease],
                          [SlotSet_symptoms updated_symptoms,
                           SlotSet_possible_diseases [final_disease],
                           SlotSet_predicted_disease final_disease])
                 | possible_diseases \<Rightarrow>
                     (case collect_remaining updated_symptoms (columns disease_symptoms)
                             candidate_diseases (all_symptoms disease_symptoms) [] of
                        Inl e \<Rightarrow> Inl e
                      | Inr remaining_symptoms \<Rightarrow>
                          Inr ([if remaining_symptoms \<noteq> []
                                then AskAlso (join '', '' (take 5 remaining_symptoms))
                                else PossibleDiseases (join '', '' possible_diseases)],
                               [SlotSet_symptoms updated_symptoms,
                                SlotSet_possible_diseases possible_diseases,
                                SlotSet_remaining_symptoms_to_ask (take 5 remaining_symptoms)]))))"

text \<open>
  The list that line 48 reads, \<open>tracker.get_slot("symptoms") or []\<close>, joined with the
  new symptoms: the list whose set line 49 enumerates.
\<close>

definition merged_symptoms :: "sd_table \<Rightarrow> tracker \<Rightarrow> string list" where
  "merged_symptoms disease_symptoms tracker =
     (case slot_symptoms (get_slot tracker) of None \<Rightarrow> [] | Some stored_symptoms \<Rightarrow> stored_symptoms)
     @ clean_symptom_input (all_symptoms disease_symptoms) (latest_message_text tracker)"

section \<open>The action get disease info (lines 111 to 131)\<close>

text \<open>\<open>not disease\<close> holds for an absent slot and for the empty string.\<close>

definition action_get_disease_info :: "info_row list \<Rightarrow> tracker \<Rightarrow> response" where
  "action_get_disease_info disease_info tracker =
     (case slot_predicted_disease (get_slot tracker) of
        None \<Rightarrow> ([WhichDisease], [])
      | Some d \<Rightarrow>
          if d = [] then ([WhichDisease], [])
          else
            (case lookup disease_info d of
               Some (descr, treat, prev) \<Rightarrow> ([Details descr treat prev], [])
             | None \<Rightarrow> ([NoDetails d], [])))"

section \<open>The tables of the scenarios\<close>

text \<open>
  The table of the specification's scenarios: symptoms fever, cough and rash; flu has
  fever and cough, measles has fever and rash.
\<close>

definition flu_row :: sd_row where
  "flu_row = \<lparr>prognosis = ''flu'',
               cells = (\<lambda>c. if c = ''fever'' \<or> c = ''cough'' then 1 else 0)\<rparr>"

definition measles_row :: sd_row where
  "measles_row = \<lparr>prognosis = ''measles'',
                   cells = (\<lambda>c. if c = ''fever'' \<or> c = ''rash'' then 1 else 0)\<rparr>"

definition example_table :: sd_table where
  "example_table = \<lparr>columns = [''fever'', ''cough'', ''rash'', ''prognosis''],
                     rows = [flu_row, measles_row]\<rparr>"

text \<open>A table in which the flu profile occurs twice.\<close>

definition twin_table :: sd_table where
  "twin_table = \<lparr>columns = [''fever'', ''cough'', ''rash'', ''prognosis''],
                  rows = [flu_row, flu_row, measles_row]\<rparr>"

text \<open>Trackers: no slot set, or the given slots.\<close>

definition no_slots :: slots where
  "no_slots = \<lparr>slot_symptoms = None, slot_possible_diseases = None,
               slot_predicted_disease = None, slot_remaining_symptoms_to_ask = None\<rparr>"

definition tracker_saying :: "string \<Rightarrow> tracker" where
  "tracker_saying s = \<lparr>latest_message_text = s, get_slot = no_slots\<rparr>"

text \<open>An info table with two rows for flu and none for malaria.\<close>

definition example_info :: "info_row list" where
  "example_info =
     [\<lparr>disease = ''measles'', description = ''a rash illness'', treatment = ''fluids'',
       prevention = ''vaccination''\<rparr>,
      \<lparr>disease = ''flu'', description = ''a viral infection'', treatment = ''rest'',
       prevention = ''a yearly vaccine''\<rparr>,
      \<lparr>disease = ''flu'', description = ''a second entry'', treatment = ''none'',
       prevention = ''none''\<rparr>]"

definition tracker_with :: "string \<Rightarrow> slots \<Rightarrow> tracker" where
  "tracker_with s sl = \<lparr>latest_message_text = s, get_slot = sl\<rparr>"

text \<open>The slots after fever and cough have been reported and flu predicted.\<close>

definition known_fever_cough :: slots where
  "known_fever_cough = no_slots\<lparr>slot_symptoms := Some [''fever'', ''cough''],
                                slot_possible_diseases := Some [''flu''],
                                slot_predicted_disease := Some ''flu''\<rparr>"

section \<open>Splitting on runs of separators\<close>

lemma split_on_runs_Nil: "split_on_runs [] = [[]]"
  by (simp add: split_on_runs.simps)

lemma split_on_runs_sep:
  "is_sep c \<Longrightarrow> split_on_runs (c # cs) = [] # split_on_runs (dropWhile is_sep cs)"
  by (subst split_on_runs.simps) simp

lemma split_on_runs_nonsep:
  assumes nonsep: "\<not> is_sep c"
  shows "split_on_runs (c # cs) = (c # hd (split_on_runs cs)) # tl (split_on_runs cs)"
proof (cases "dropWhile (\<lambda>c. \<not> is_sep c) cs")
  case Nil
  have "split_on_runs cs = [cs]"
    by (subst split_on_runs.simps) (simp only: Nil list.case)
  moreover have "dropWhile (\<lambda>c. \<not> is_sep c) (c # cs) = []"
    using Nil nonsep by simp
  then have "split_on_runs (c # cs) = [c # cs]"
    by (subst split_on_runs.simps) (simp only: list.case)
  ultimately show ?thesis by simp
next
  case (Cons d ds)
  have "split_on_runs cs =
      takeWhile (\<lambda>c. \<not> is_sep c) cs # split_on_runs (dropWhile is_sep ds)"
    by (subst split_on_runs.simps) (simp only: Cons list.case)
  moreover have "dropWhile (\<lambda>c. \<not> is_sep c) (c # cs) = d # ds"
    using Cons nonsep by simp
  then have "split_on_runs (c # cs) =
      takeWhile (\<lambda>c. \<not> is_sep c) (c # cs) # split_on_runs (dropWhile is_sep ds)"
    by (subst split_on_runs.simps) (simp only: list.case)
  ultimately show ?thesis using nonsep by simp
qed

lemma split_on_runs_nonempty: "split_on_runs s \<noteq> []"
  by (subst split_on_runs.simps) (simp split: list.splits)

text \<open>
  The scanner computes the split on runs: inside a run it skips the rest of the run;
  outside, the piece it has read so far is the head of the first piece.
\<close>

lemma re_split_from_runs:
  "re_split_from True [] s = split_on_runs (dropWhile is_sep s)"
  "re_split_from False cur s = (rev cur @ hd (split_on_runs s)) # tl (split_on_runs s)"
proof (induction s arbitrary: cur)
  case Nil
  { case 1 show ?case by (simp add: split_on_runs_Nil) }
  { case 2 show ?case by (simp add: split_on_runs_Nil) }
next
  case (Cons c cs)
  { case 1 show ?case
      using Cons.IH(1) Cons.IH(2)[of "[c]"] split_on_runs_nonempty[of cs]
      by (cases "split_on_runs cs") (simp_all add: split_on_runs_nonsep) }
  { case 2 show ?case
      using Cons.IH(1) Cons.IH(2)[of "c # cur"]
      by (simp add: split_on_runs_nonsep split_on_runs_sep) }
qed

lemma re_split_runs: "re_split s = split_on_runs s"
  using re_split_from_runs(2)[of "[]" s] split_on_runs_nonempty[of s]
  by (cases "split_on_runs s") (simp_all add: re_split_def)

lemma remove_fillers_foldl:
  "remove_fillers ws s = foldl (\<lambda>text phrase. replace phrase '' '' text) s ws"
  by (induction ws arbitrary: s) simp_all

lemma comprehension_filter_map:
  "[f t. t \<leftarrow> ts, f t \<in> A] = filter (\<lambda>t. t \<in> A) (map f ts)"
  by (induction ts) simp_all

section \<open>The extractor\<close>

text \<open>
  C3. \<open>clean_symptom_input\<close> returns what the specification's \<open>extract\<close> describes:
  the input in lower case, every filler phrase replaced by one space, in the fixed
  order and as a plain substring, the text split on runs of commas and white space,
  each piece trimmed, and the pieces that are vocabulary members kept. The result is
  empty exactly when no trimmed piece is a vocabulary member. It is a function of its
  two arguments and nothing else. Lower case and white space are Python's on every
  code point up to 255, so on the no-break space and the accented capitals too.
\<close>

theorem clean_symptom_input_is_extract:
  "clean_symptom_input vocabulary rawText = spec_extract rawText vocabulary
   \<and> (clean_symptom_input vocabulary rawText = [] \<longleftrightarrow>
        (\<forall>t\<in>set (map strip (re_split (remove_fillers filler_words (lower rawText)))).
           t \<notin> set vocabulary))"
proof
  show "clean_symptom_input vocabulary rawText = spec_extract rawText vocabulary"
    by (simp add: clean_symptom_input_def spec_extract_def re_split_runs
          remove_fillers_foldl comprehension_filter_map)
  show "clean_symptom_input vocabulary rawText = [] \<longleftrightarrow>
        (\<forall>t\<in>set (map strip (re_split (remove_fillers filler_words (lower rawText)))).
           t \<notin> set vocabulary)"
    by (simp add: clean_symptom_input_def comprehension_filter_map filter_empty_conv)
qed

theorem clean_symptom_input_is_extract_witness:
  "spec_extract ''I have fever and cough'' [''fever'', ''cough'', ''rash''] = [''fever'', ''cough'']
   \<and> map strip (re_split (remove_fillers filler_words (lower ''I have chills'')))
       = ['''', ''chills'']
   \<and> clean_symptom_input [''fever'', ''cough'', ''rash''] ''I have chills'' = []
   \<and> spec_extract (''Fever'' @ [CHR 0xA0] @ ''COUGH'') [''fever'', ''cough'', ''rash'']
       = [''fever'', ''cough'']
   \<and> spec_extract [CHR ''F'', CHR ''I'', CHR 0xC8, CHR ''V'', CHR ''R'', CHR ''E'']
         [[CHR ''f'', CHR ''i'', CHR 0xE8, CHR ''v'', CHR ''r'', CHR ''e'']]
       = [[CHR ''f'', CHR ''i'', CHR 0xE8, CHR ''v'', CHR ''r'', CHR ''e'']]"
proof -
  have a: "clean_symptom_input [''fever'', ''cough'', ''rash''] ''I have fever and cough''
             = [''fever'', ''cough'']"
    by code_simp
  have b: "map strip (re_split (remove_fillers filler_words (lower ''I have chills'')))
             = ['''', ''chills'']"
    by code_simp
  have c: "clean_symptom_input [''fever'', ''cough'', ''rash''] (''Fever'' @ [CHR 0xA0] @ ''COUGH'')
             = [''fever'', ''cough'']"
    by code_simp
  have d: "clean_symptom_input [[CHR ''f'', CHR ''i'', CHR 0xE8, CHR ''v'', CHR ''r'', CHR ''e'']]
             [CHR ''F'', CHR ''I'', CHR 0xC8, CHR ''V'', CHR ''R'', CHR ''E'']
             = [[CHR ''f'', CHR ''i'', CHR 0xE8, CHR ''v'', CHR ''r'', CHR ''e'']]"
    by code_simp
  from clean_symptom_input_is_extract
         [of "[''fever'', ''cough'', ''rash'']" "''I have fever and cough''", THEN conjunct1]
  have 1: "spec_extract ''I have fever and cough'' [''fever'', ''cough'', ''rash'']
          = [''fever'', ''cough'']"
    unfolding a by (rule sym)
  from clean_symptom_input_is_extract
         [of "[''fever'', ''cough'', ''rash'']" "''I have chills''", THEN conjunct2]
  have "clean_symptom_input [''fever'', ''cough'', ''rash''] ''I have chills'' = [] \<longleftrightarrow>
          (\<forall>t\<in>set ['''', ''chills'']. t \<notin> set [''fever'', ''cough'', ''rash''])"
    unfolding b .
  then have 2: "clean_symptom_input [''fever'', ''cough'', ''rash''] ''I have chills'' = []"
    by simp
  from clean_symptom_input_is_extract
         [of "[''fever'', ''cough'', ''rash'']" "''Fever'' @ [CHR 0xA0] @ ''COUGH''", THEN conjunct1]
  have 3: "spec_extract (''Fever'' @ [CHR 0xA0] @ ''COUGH'') [''fever'', ''cough'', ''rash'']
       = [''fever'', ''cough'']"
    unfolding c by (rule sym)
  from clean_symptom_input_is_extract
         [of "[[CHR ''f'', CHR ''i'', CHR 0xE8, CHR ''v'', CHR ''r'', CHR ''e'']]"
             "[CHR ''F'', CHR ''I'', CHR 0xC8, CHR ''V'', CHR ''R'', CHR ''E'']", THEN conjunct1]
  have 4: "spec_extract [CHR ''F'', CHR ''I'', CHR 0xC8, CHR ''V'', CHR ''R'', CHR ''E'']
         [[CHR ''f'', CHR ''i'', CHR 0xE8, CHR ''v'', CHR ''r'', CHR ''e'']]
       = [[CHR ''f'', CHR ''i'', CHR 0xE8, CHR ''v'', CHR ''r'', CHR ''e'']]"
    unfolding d by (rule sym)
  from 1 b 2 3 4 show ?thesis by blast
qed

section \<open>Extracting from the extractor's output\<close>

subsection \<open>Replacing a phrase\<close>

lemma replace_Nil [simp]: "old \<noteq> [] \<Longrightarrow> replace old new [] = []"
  by (simp add: replace.simps)

lemma replace_empty_pattern: "replace [] new s = new @ concat (map (\<lambda>c. c # new) s)"
  by (simp add: replace.simps)

lemma replace_match:
  "old \<noteq> [] \<Longrightarrow> s \<noteq> [] \<Longrightarrow> take (length old) s = old \<Longrightarrow>
   replace old new s = new @ replace old new (drop (length old) s)"
  by (subst replace.simps) simp

lemma replace_step:
  "old \<noteq> [] \<Longrightarrow> take (length old) (c # cs) \<noteq> old \<Longrightarrow>
   replace old new (c # cs) = c # replace old new cs"
  by (subst replace.simps) simp

lemma take_length_prefix: "take (length old) s = old \<longleftrightarrow> prefix old s"
  by (metis append_eq_conv_conj prefix_def)

text \<open>A prefix without space of the replaced text is a prefix of the text.\<close>

lemma prefix_replace_space:
  "CHR '' '' \<notin> set v \<Longrightarrow> prefix v (replace w '' '' s) \<Longrightarrow> prefix v s"
proof (cases "w = []")
  case True
  assume "CHR '' '' \<notin> set v" and "prefix v (replace w '' '' s)"
  with True have "v = []" by (cases v) (auto simp: replace_empty_pattern)
  then show ?thesis by simp
next
  case False
  assume "CHR '' '' \<notin> set v" and "prefix v (replace w '' '' s)"
  then show ?thesis
  proof (induction s arbitrary: v)
    case Nil
    with False show ?case by simp
  next
    case (Cons c cs)
    show ?case
    proof (cases "take (length w) (c # cs) = w")
      case True
      with False
      have "replace w '' '' (c # cs) = '' '' @ replace w '' '' (drop (length w) (c # cs))"
        by (intro replace_match) simp_all
      with Cons.prems have "v = []" by (cases v) auto
      then show ?thesis by simp
    next
      case nomatch: False
      with \<open>w \<noteq> []\<close> have r: "replace w '' '' (c # cs) = c # replace w '' '' cs"
        by (rule replace_step)
      show ?thesis
      proof (cases v)
        case Nil
        then show ?thesis by simp
      next
        case (Cons a v')
        with Cons.prems r have "a = c" "prefix v' (replace w '' '' cs)" "CHR '' '' \<notin> set v'"
          by auto
        with Cons.IH[of v'] Cons show ?thesis by simp
      qed
    qed
  qed
qed

text \<open>The same for the text with a space before, between and behind its characters.\<close>

lemma sublist_spaced:
  "CHR '' '' \<notin> set v \<Longrightarrow> sublist v (CHR '' '' # concat (map (\<lambda>c. c # '' '') s)) \<Longrightarrow>
   sublist v s"
proof (induction s)
  case Nil
  then show ?case by (cases v) (auto simp: sublist_Cons_right)
next
  case (Cons c cs)
  let ?rest = "CHR '' '' # concat (map (\<lambda>c. c # '' '') cs)"
  from Cons.prems(2) consider "prefix v (CHR '' '' # c # ?rest)" | "prefix v (c # ?rest)"
    | "sublist v ?rest"
    by (auto simp: sublist_Cons_right)
  then show ?case
  proof cases
    case 1
    with Cons.prems(1) have "v = []" by (cases v) auto
    then show ?thesis by simp
  next
    case 2
    with Cons.prems(1) have "v = [] \<or> v = [c]"
      by (cases v; cases "tl v") auto
    then show ?thesis by (auto simp: sublist_Cons_right)
  next
    case 3
    with Cons have "sublist v cs" by simp
    then show ?thesis by (simp add: sublist_Cons_right)
  qed
qed

text \<open>A substring without space of the replaced text is a substring of the text.\<close>

lemma sublist_replace_space:
  "CHR '' '' \<notin> set v \<Longrightarrow> sublist v (replace w '' '' s) \<Longrightarrow> sublist v s"
proof (induction "length s" arbitrary: s rule: less_induct)
  case less
  show ?case
  proof (cases "w = []")
    case True
    with less.prems(2)
    have "sublist v (CHR '' '' # concat (map (\<lambda>c. c # '' '') s))"
      by (simp add: replace_empty_pattern)
    with less.prems(1) show ?thesis by (rule sublist_spaced)
  next
    case w: False
    show ?thesis
    proof (cases s)
      case Nil
      with w less.prems show ?thesis by simp
    next
      case s: (Cons c cs)
      show ?thesis
      proof (cases "take (length w) s = w")
        case True
        with w s have r: "replace w '' '' s = CHR '' '' # replace w '' '' (drop (length w) s)"
          by (simp add: replace_match)
        from less.prems(2)
        consider "prefix v (CHR '' '' # replace w '' '' (drop (length w) s))"
          | "sublist v (replace w '' '' (drop (length w) s))"
          unfolding r by (auto simp: sublist_Cons_right)
        then show ?thesis
        proof cases
          case 1
          with less.prems(1) have "v = []" by (cases v) auto
          then show ?thesis by simp
        next
          case 2
          have "length (drop (length w) s) < length s" using w s by simp
          from less.hyps[OF this less.prems(1) 2] have "sublist v (drop (length w) s)" .
          then show ?thesis
            by (meson sublist_order.order.trans suffix_drop suffix_imp_sublist)
        qed
      next
        case nomatch: False
        with w s have r: "replace w '' '' s = c # replace w '' '' cs"
          by (simp add: replace_step)
        from less.prems(2)
        consider "prefix v (replace w '' '' s)" | "sublist v (replace w '' '' cs)"
          unfolding r by (auto simp: sublist_Cons_right)
        then show ?thesis
        proof cases
          case 1
          with less.prems(1) have "prefix v s" by (rule prefix_replace_space)
          then show ?thesis by (rule prefix_imp_sublist)
        next
          case 2
          have "length cs < length s" using s by simp
          from less.hyps[OF this less.prems(1) 2] have "sublist v cs" .
          then show ?thesis unfolding s by (rule sublist_Cons_right[THEN iffD2, OF disjI2])
        qed
      qed
    qed
  qed
qed

text \<open>A pass leaves no occurrence of its own phrase, when the phrase has no space.\<close>

lemma replace_removes_phrase:
  "CHR '' '' \<notin> set f \<Longrightarrow> f \<noteq> [] \<Longrightarrow> \<not> sublist f (replace f '' '' s)"
proof (induction "length s" arbitrary: s rule: less_induct)
  case less
  show ?case
  proof (cases s)
    case Nil
    with less.prems show ?thesis by simp
  next
    case (Cons c cs)
    show ?thesis
    proof (cases "take (length f) s = f")
      case True
      with less.prems Cons
      have r: "replace f '' '' s = CHR '' '' # replace f '' '' (drop (length f) s)"
        by (simp add: replace_match)
      have "length (drop (length f) s) < length s" using less.prems Cons by simp
      from less.hyps[OF this less.prems]
      have "\<not> sublist f (replace f '' '' (drop (length f) s))" .
      moreover have "\<not> prefix f (CHR '' '' # replace f '' '' (drop (length f) s))"
        using less.prems by (cases f) auto
      ultimately show ?thesis unfolding r by (simp add: sublist_Cons_right)
    next
      case nomatch: False
      with less.prems Cons have r: "replace f '' '' s = c # replace f '' '' cs"
        by (simp add: replace_step)
      have "length cs < length s" using Cons by simp
      from less.hyps[OF this less.prems] have "\<not> sublist f (replace f '' '' cs)" .
      moreover have "\<not> prefix f (replace f '' '' s)"
        using prefix_replace_space[OF less.prems(1), of f s] nomatch
        by (auto simp: take_length_prefix)
      ultimately show ?thesis using r by (simp add: sublist_Cons_right)
    qed
  qed
qed

text \<open>A pass changes nothing when its phrase does not occur.\<close>

lemma replace_absent: "\<not> sublist f s \<Longrightarrow> replace f new s = s"
proof (induction s)
  case Nil
  then have "f \<noteq> []" by auto
  then show ?case by simp
next
  case (Cons c cs)
  then have "f \<noteq> []" by auto
  moreover from Cons.prems have "\<not> prefix f (c # cs)" "\<not> sublist f cs"
    by (auto simp: sublist_Cons_right)
  ultimately show ?case using Cons.IH
    by (simp add: replace_step take_length_prefix)
qed

lemma set_replace: "set (replace w new s) \<subseteq> set s \<union> set new"
proof (induction "length s" arbitrary: s rule: less_induct)
  case less
  show ?case
  proof (cases "w = []")
    case True
    then show ?thesis by (auto simp: replace_empty_pattern)
  next
    case w: False
    show ?thesis
    proof (cases s)
      case Nil
      with w show ?thesis by simp
    next
      case s: (Cons c cs)
      show ?thesis
      proof (cases "take (length w) s = w")
        case True
        with w s have r: "replace w new s = new @ replace w new (drop (length w) s)"
          by (simp add: replace_match)
        have "length (drop (length w) s) < length s" using w s by simp
        from less.hyps[OF this]
        have "set (replace w new (drop (length w) s)) \<subseteq> set s \<union> set new"
          using set_drop_subset[of "length w" s] by blast
        then show ?thesis unfolding r by auto
      next
        case nomatch: False
        with w s have r: "replace w new s = c # replace w new cs"
          by (simp add: replace_step)
        have "length cs < length s" using s by simp
        from less.hyps[OF this] have "set (replace w new cs) \<subseteq> set cs \<union> set new" .
        with r s show ?thesis by auto
      qed
    qed
  qed
qed

subsection \<open>The text behind the filler passes, and its pieces\<close>

lemma remove_fillers_keeps_absent:
  "CHR '' '' \<notin> set f \<Longrightarrow> \<not> sublist f s \<Longrightarrow> \<not> sublist f (remove_fillers ws s)"
  by (induction ws arbitrary: s) (auto dest: sublist_replace_space)

lemma remove_fillers_removes:
  "CHR '' '' \<notin> set f \<Longrightarrow> f \<noteq> [] \<Longrightarrow> f \<in> set ws \<Longrightarrow> \<not> sublist f (remove_fillers ws s)"
proof (induction ws arbitrary: s)
  case Nil
  then show ?case by simp
next
  case (Cons w ws)
  show ?case
  proof (cases "f = w")
    case True
    with Cons.prems have "\<not> sublist f (replace w '' '' s)"
      by (simp add: replace_removes_phrase)
    with Cons.prems(1) show ?thesis by (simp add: remove_fillers_keeps_absent)
  next
    case False
    with Cons show ?thesis by simp
  qed
qed

lemma remove_fillers_absent:
  "\<forall>f\<in>set ws. \<not> sublist f s \<Longrightarrow> remove_fillers ws s = s"
  by (induction ws) (simp_all add: replace_absent)

lemma set_remove_fillers: "set (remove_fillers ws s) \<subseteq> insert (CHR '' '') (set s)"
proof (induction ws arbitrary: s)
  case Nil
  show ?case by auto
next
  case (Cons w ws)
  from Cons.IH[of "replace w '' '' s"] set_replace[of w "'' ''" s] show ?case by auto
qed

lemma lower_char_idem: "lower_char (lower_char c) = lower_char c"
  by (auto simp: lower_char_def Let_def)

lemma lower_char_sep: "is_sep c \<Longrightarrow> lower_char c = c"
  by (auto simp: lower_char_def is_sep_def is_space_def Let_def)

lemma is_sep_space: "is_sep (CHR '' '')"
  by (simp add: is_sep_def is_space_def)

lemma lower_fixed: "\<forall>c\<in>set s. lower_char c = c \<Longrightarrow> lower s = s"
  by (simp add: lower_def map_idI)

lemma cleaned_text_lower:
  "\<forall>c\<in>set (remove_fillers ws (lower x)). lower_char c = c"
proof
  fix c assume "c \<in> set (remove_fillers ws (lower x))"
  with set_remove_fillers[of ws "lower x"] have "c = CHR '' '' \<or> c \<in> set (lower x)" by auto
  then show "lower_char c = c"
    by (auto simp: lower_def lower_char_idem lower_char_sep[OF is_sep_space])
qed

text \<open>The pieces of a split have no separator and are substrings of the text.\<close>

lemma split_on_runs_pieces:
  "t \<in> set (split_on_runs s) \<Longrightarrow> (\<forall>c\<in>set t. \<not> is_sep c) \<and> sublist t s"
proof (induction s arbitrary: t rule: split_on_runs.induct)
  case (1 s)
  show ?case
  proof (cases "dropWhile (\<lambda>c. \<not> is_sep c) s")
    case Nil
    then have "split_on_runs s = [s]"
      by (subst split_on_runs.simps) (simp only: list.case)
    moreover from Nil have "\<forall>c\<in>set s. \<not> is_sep c"
      by (simp add: dropWhile_eq_Nil_conv)
    ultimately show ?thesis using "1.prems" by simp
  next
    case (Cons d ds)
    then have sp: "split_on_runs s =
        takeWhile (\<lambda>c. \<not> is_sep c) s # split_on_runs (dropWhile is_sep ds)"
      by (subst split_on_runs.simps) (simp only: list.case)
    from "1.prems" sp consider "t = takeWhile (\<lambda>c. \<not> is_sep c) s"
      | "t \<in> set (split_on_runs (dropWhile is_sep ds))" by auto
    then show ?thesis
    proof cases
      case 1
      have "prefix t s" unfolding 1 by (rule takeWhile_is_prefix)
      moreover have "\<forall>c\<in>set t. \<not> is_sep c" unfolding 1 by (auto dest: set_takeWhileD)
      ultimately show ?thesis by (simp add: prefix_imp_sublist)
    next
      case 2
      from "1.IH"[OF Cons 2] have a: "\<forall>c\<in>set t. \<not> is_sep c"
        and b: "sublist t (dropWhile is_sep ds)" by simp_all
      have "suffix (dropWhile is_sep ds) ds" by (rule suffix_dropWhile)
      moreover have "suffix ds (d # ds)" by (simp add: suffix_ConsI)
      moreover have "suffix (d # ds) s" unfolding Cons[symmetric] by (rule suffix_dropWhile)
      ultimately have "suffix (dropWhile is_sep ds) s"
        by (meson suffix_order.trans)
      with b have "sublist t s"
        by (meson sublist_order.order.trans suffix_imp_sublist)
      with a show ?thesis by simp
    qed
  qed
qed

lemma strip_no_sep: "\<forall>c\<in>set t. \<not> is_sep c \<Longrightarrow> strip t = t"
proof -
  assume a: "\<forall>c\<in>set t. \<not> is_sep c"
  then have b: "\<forall>c\<in>set t. \<not> is_space c" by (auto simp: is_sep_def)
  then have "dropWhile is_space t = t" by (cases t) auto
  moreover from b have "dropWhile is_space (rev t) = rev t" by (cases "rev t") auto
  ultimately show ?thesis by (simp add: strip_def)
qed

subsection \<open>Joining and splitting again\<close>

lemma sublist_behind_seps:
  "f \<noteq> [] \<Longrightarrow> \<not> is_sep (hd f) \<Longrightarrow> \<forall>c\<in>set ws. is_sep c \<Longrightarrow> sublist f (ws @ t) \<Longrightarrow> sublist f t"
proof (induction ws)
  case Nil
  then show ?case by simp
next
  case (Cons w ws)
  from Cons.prems(4) consider "prefix f (w # ws @ t)" | "sublist f (ws @ t)"
    by (auto simp: sublist_Cons_right)
  then show ?case
  proof cases
    case 1
    with Cons.prems(1,2,3) show ?thesis by (cases f) auto
  next
    case 2
    with Cons show ?thesis by simp
  qed
qed

text \<open>
  A joined list starts with its first element; what follows is nothing or starts with
  the separator.
\<close>

lemma join_starts:
  "\<exists>r. join sep (t # ts) = t @ r \<and> (r = [] \<or> (\<exists>r'. r = sep @ r'))"
  by (cases ts) simp_all

lemma set_join: "set (join sep ts) \<subseteq> set sep \<union> \<Union> (set ` set ts)"
  by (induction sep ts rule: join.induct) auto

text \<open>
  A filler word starts with no separator, and either has no separator at all or is
  two stretches without separator with one space between them.
\<close>

lemma filler_words_shape:
  "\<forall>f\<in>set filler_words. f \<noteq> [] \<and> \<not> is_sep (hd f)"
  by (simp add: filler_words_def is_sep_def is_space_def)

lemma filler_words_split:
  "\<forall>f\<in>set filler_words.
     (\<forall>c\<in>set f. \<not> is_sep c)
     \<or> (\<exists>a b. f = a @ CHR '' '' # b \<and> b \<noteq> []
               \<and> (\<forall>c\<in>set a. \<not> is_sep c) \<and> (\<forall>c\<in>set b. \<not> is_sep c))"
proof -
  have 1: "\<exists>a b. ''i have'' = a @ CHR '' '' # b \<and> b \<noteq> []
               \<and> (\<forall>c\<in>set a. \<not> is_sep c) \<and> (\<forall>c\<in>set b. \<not> is_sep c)"
    by (rule exI[of _ "''i''"], rule exI[of _ "''have''"]) (simp add: is_sep_def is_space_def)
  have 2: "\<exists>a b. ''i am'' = a @ CHR '' '' # b \<and> b \<noteq> []
               \<and> (\<forall>c\<in>set a. \<not> is_sep c) \<and> (\<forall>c\<in>set b. \<not> is_sep c)"
    by (rule exI[of _ "''i''"], rule exI[of _ "''am''"]) (simp add: is_sep_def is_space_def)
  have 3: "\<exists>a b. ''i feel'' = a @ CHR '' '' # b \<and> b \<noteq> []
               \<and> (\<forall>c\<in>set a. \<not> is_sep c) \<and> (\<forall>c\<in>set b. \<not> is_sep c)"
    by (rule exI[of _ "''i''"], rule exI[of _ "''feel''"]) (simp add: is_sep_def is_space_def)
  have 4: "\<exists>a b. ''suffering from'' = a @ CHR '' '' # b \<and> b \<noteq> []
               \<and> (\<forall>c\<in>set a. \<not> is_sep c) \<and> (\<forall>c\<in>set b. \<not> is_sep c)"
    by (rule exI[of _ "''suffering''"], rule exI[of _ "''from''"])
       (simp add: is_sep_def is_space_def)
  have rest: "\<forall>f\<in>set [[CHR ''i'', CHR 0x27, CHR ''m''], ''having'', ''got'', ''with'', ''also'', ''and''].
               \<forall>c\<in>set f. \<not> is_sep c"
    by (simp add: is_sep_def is_space_def)
  from 1 2 3 4 rest show ?thesis
    unfolding filler_words_def by (simp del: append_eq_append_conv2 split_paired_Ex)
qed

text \<open>A text with one separator splits at it in one way only.\<close>

lemma split_at_only_sep:
  assumes "\<forall>c\<in>set a. \<not> is_sep c" and "is_sep d"
      and "f1 @ d # r = a @ x # b" and "\<forall>c\<in>set b. \<not> is_sep c"
  shows "f1 = a \<and> d = x \<and> r = b"
  using assms
proof (induction a arbitrary: f1)
  case Nil
  show ?case
  proof (cases f1)
    case Nil
    with Nil.prems show ?thesis by simp
  next
    case (Cons y ys)
    with Nil.prems have "b = ys @ d # r" by simp
    with Nil.prems(2,4) show ?thesis by auto
  qed
next
  case (Cons y a)
  show ?case
  proof (cases f1)
    case Nil
    with Cons.prems show ?thesis by auto
  next
    case (Cons z zs)
    with Cons.prems have "z = y" "zs @ d # r = a @ x # b" by simp_all
    with Cons.IH[of zs] Cons.prems Cons show ?thesis by simp
  qed
qed

lemma prefix_of_piece:
  assumes "prefix b (y @ r)" and "\<forall>c\<in>set b. \<not> is_sep c"
      and "r = [] \<or> is_sep (hd r)"
  shows "prefix b y"
proof -
  from assms(1) consider "prefix b y" | us where "b = y @ us" "prefix us r"
    by (auto simp: prefix_append)
  then show ?thesis
  proof cases
    case 1
    then show ?thesis .
  next
    case 2
    show ?thesis
    proof (cases us)
      case Nil
      with 2 show ?thesis by simp
    next
      case (Cons u us')
      with 2(2) assms(3) have "is_sep u" by (cases r) auto
      with 2(1) Cons assms(2) show ?thesis by simp
    qed
  qed
qed

text \<open>
  No filler word occurs in the joined pieces when none occurs in a piece and, for the
  separator of one space, none is spelt across a joint.
\<close>

lemma no_phrase_in_join:
  assumes f: "f \<in> set filler_words"
      and sep: "sep \<noteq> []" "\<forall>c\<in>set sep. is_sep c"
  shows "\<forall>t\<in>set ts. t \<noteq> [] \<and> (\<forall>c\<in>set t. \<not> is_sep c) \<and> \<not> sublist f t \<Longrightarrow>
         sep = '' '' \<longrightarrow> (\<forall>t1\<in>set ts. \<forall>t2\<in>set ts. \<not> spelt_across f t1 t2) \<Longrightarrow>
         \<not> sublist f (join sep ts)"
proof (induction ts rule: induct_list012)
  case 1
  from f filler_words_shape have "f \<noteq> []" by blast
  then show ?case by simp
next
  case (2 x)
  then show ?case by simp
next
  case (3 x y zs)
  from f filler_words_shape have fne: "f \<noteq> []" and fhd: "\<not> is_sep (hd f)" by blast+
  let ?J = "join sep (y # zs)"
  obtain r where J: "?J = y @ r" and r: "r = [] \<or> (\<exists>r'. r = sep @ r')"
    using join_starts by blast
  from r sep have rsep: "r = [] \<or> is_sep (hd r)" by (cases sep) auto
  have IH: "\<not> sublist f ?J" using "3.IH"(2) "3.prems" by simp
  have nx: "\<not> sublist f x" and xsep: "\<forall>c\<in>set x. \<not> is_sep c" using "3.prems"(1) by simp_all
  show ?case
  proof
    assume "sublist f (join sep (x # y # zs))"
    then have "sublist f (x @ sep @ ?J)" by simp
    then consider "sublist f x" | "sublist f (sep @ ?J)"
      | f1 f2 where "f = f1 @ f2" "suffix f1 x" "prefix f2 (sep @ ?J)"
      by (auto simp: sublist_append)
    then show False
    proof cases
      case 1
      with nx show False by contradiction
    next
      case 2
      with fne fhd sep(2) have "sublist f ?J" by (rule sublist_behind_seps)
      with IH show False by contradiction
    next
      case 3
      obtain s0 sep' where s0: "sep = s0 # sep'" using sep(1) by (cases sep) auto
      with sep(2) have s0sep: "is_sep s0" and sep'sep: "\<forall>c\<in>set sep'. is_sep c" by simp_all
      show False
      proof (cases f2)
        case Nil
        with 3 have "sublist f x" by simp
        with nx show False by contradiction
      next
        case (Cons d f2')
        with 3(3) s0 have d: "d = s0" and p: "prefix f2' (sep' @ ?J)" by simp_all
        show False
        proof (cases f1)
          case Nil
          with 3(1) Cons d s0sep fhd show False by simp
        next
          case f1: (Cons e f1')
          from f filler_words_split consider "\<forall>c\<in>set f. \<not> is_sep c"
            | a b where "f = a @ CHR '' '' # b" "b \<noteq> []"
                "\<forall>c\<in>set a. \<not> is_sep c" "\<forall>c\<in>set b. \<not> is_sep c"
            by blast
          then show False
          proof cases
            case 1
            with 3(1) Cons d s0sep show False by simp
          next
            case 2
            from 3(1) Cons 2(1) have "f1 @ d # f2' = a @ CHR '' '' # b" by simp
            from split_at_only_sep[OF 2(3) _ this 2(4)] d s0sep
            have e: "f1 = a" "d = CHR '' ''" "f2' = b" by simp_all
            have "sep' = []"
            proof (rule ccontr)
              assume "sep' \<noteq> []"
              then obtain s1 sep'' where "sep' = s1 # sep''" by (cases sep') auto
              with p e(3) 2(2) sep'sep have "is_sep (hd b)" by (cases b) auto
              with 2(2,4) show False by (cases b) auto
            qed
            with s0 d e(2) have space: "sep = '' ''" by simp
            from p \<open>sep' = []\<close> e(3) J have "prefix b (y @ r)" by simp
            from prefix_of_piece[OF this 2(4) rsep] have pb: "prefix b y" .
            have "spelt_across f x y"
              unfolding spelt_across_def
            proof (rule bexI[of _ "length a"])
              show "f ! length a = CHR '' '' \<and> suffix (take (length a) f) x
                      \<and> prefix (drop (Suc (length a)) f) y"
                using 3(2) e(1) pb by (simp add: 2(1))
              show "length a \<in> {0..<length f}" by (simp add: 2(1))
            qed
            with "3.prems"(2) space show False by simp
          qed
        qed
      qed
    qed
  qed
qed

lemma split_on_runs_piece:
  assumes "\<forall>c\<in>set t. \<not> is_sep c"
  shows "split_on_runs t = [t]"
proof -
  from assms have "dropWhile (\<lambda>c. \<not> is_sep c) t = []" by simp
  then show ?thesis by (subst split_on_runs.simps) (simp only: list.case)
qed

lemma split_on_runs_piece_sep:
  assumes "\<forall>c\<in>set t. \<not> is_sep c" and "is_sep d"
  shows "split_on_runs (t @ d # rest) = t # split_on_runs (dropWhile is_sep rest)"
proof -
  from assms have "dropWhile (\<lambda>c. \<not> is_sep c) (t @ d # rest) = d # rest"
    by (simp add: dropWhile_append2)
  moreover from assms have "takeWhile (\<lambda>c. \<not> is_sep c) (t @ d # rest) = t"
    by (simp add: takeWhile_append2)
  ultimately show ?thesis by (subst split_on_runs.simps) (simp only: list.case)
qed

text \<open>Splitting the joined pieces gives the pieces back.\<close>

lemma split_join:
  assumes "sep \<noteq> []" and "\<forall>c\<in>set sep. is_sep c"
  shows "ts \<noteq> [] \<Longrightarrow> \<forall>t\<in>set ts. t \<noteq> [] \<and> (\<forall>c\<in>set t. \<not> is_sep c) \<Longrightarrow>
         split_on_runs (join sep ts) = ts"
proof (induction ts rule: induct_list012)
  case 1
  then show ?case by simp
next
  case (2 x)
  then show ?case by (simp add: split_on_runs_piece)
next
  case (3 x y zs)
  obtain r where r: "join sep (y # zs) = y @ r"
    using join_starts by blast
  obtain s0 sep' where s0: "sep = s0 # sep'" using assms(1) by (cases sep) auto
  with assms(2) have s0sep: "is_sep s0" and sep'sep: "\<forall>c\<in>set sep'. is_sep c" by simp_all
  from "3.prems" have y: "y \<noteq> []" "\<not> is_sep (hd y)" by (cases y; simp)+
  then have "dropWhile is_sep (y @ r) = y @ r" by (cases y) simp_all
  with sep'sep have d: "dropWhile is_sep (sep' @ join sep (y # zs)) = join sep (y # zs)"
    by (simp add: dropWhile_append2 r)
  have "split_on_runs (join sep (x # y # zs))
          = split_on_runs (x @ s0 # (sep' @ join sep (y # zs)))"
    by (simp add: s0)
  also have "\<dots> = x # split_on_runs (join sep (y # zs))"
    using "3.prems" s0sep by (simp add: split_on_runs_piece_sep d del: join.simps)
  also have "\<dots> = x # y # zs" using 3 by simp
  finally show ?case .
qed

lemma remove_fillers_Nil: "\<forall>w\<in>set ws. w \<noteq> [] \<Longrightarrow> remove_fillers ws [] = []"
  by (induction ws) simp_all

lemma only_space_index:
  assumes "CHR '' '' \<notin> set a" and "CHR '' '' \<notin> set b"
      and "k < length (a @ CHR '' '' # b)" and "(a @ CHR '' '' # b) ! k = CHR '' ''"
  shows "k = length a"
proof (rule ccontr)
  assume n: "k \<noteq> length a"
  show False
  proof (cases "k < length a")
    case True
    with assms(4) have "a ! k = CHR '' ''" by (simp add: nth_append)
    moreover from True have "a ! k \<in> set a" by (rule nth_mem)
    ultimately show False using assms(1) by simp
  next
    case False
    with n have "length a < k" by simp
    then obtain j where j: "k = length a + Suc j"
      using less_imp_Suc_add[of "length a" k] by auto
    with assms(3) have l: "j < length b" by simp
    from j assms(4) have "b ! j = CHR '' ''" by (simp add: nth_append)
    moreover from l have "b ! j \<in> set b" by (rule nth_mem)
    ultimately show False using assms(2) by simp
  qed
qed

lemma filler_words_cases:
  assumes "f \<in> set filler_words"
  shows "f = ''i'' @ CHR '' '' # ''have'' \<or> f = ''i'' @ CHR '' '' # ''am''
      \<or> f = ''i'' @ CHR '' '' # ''feel'' \<or> f = ''suffering'' @ CHR '' '' # ''from''
      \<or> CHR '' '' \<notin> set f"
  using assms unfolding filler_words_def by (elim disjE | simp)+

text \<open>
  A filler word is spelt across a joint only behind a text that ends in \<open>i\<close> or in
  \<open>suffering\<close>.
\<close>

lemma spelt_across_ending:
  assumes "f \<in> set filler_words" and "spelt_across f t1 t2"
  shows "suffix ''i'' t1 \<or> suffix ''suffering'' t1"
proof -
  from assms(2) obtain k where k: "k < length f" "f ! k = CHR '' ''" "suffix (take k f) t1"
    by (auto simp: spelt_across_def)
  have before: "suffix a t1"
    if "f = a @ CHR '' '' # b" "CHR '' '' \<notin> set a" "CHR '' '' \<notin> set b" for a b
  proof -
    from only_space_index[OF that(2,3)] k(1,2) that(1) have "k = length a" by simp
    with k(3) that(1) show ?thesis by simp
  qed
  from filler_words_cases[OF assms(1)]
  consider "f = ''i'' @ CHR '' '' # ''have''" | "f = ''i'' @ CHR '' '' # ''am''"
    | "f = ''i'' @ CHR '' '' # ''feel''" | "f = ''suffering'' @ CHR '' '' # ''from''"
    | "CHR '' '' \<notin> set f"
    by blast
  then show ?thesis
  proof cases
    case 1
    from before[OF 1] show ?thesis by simp
  next
    case 2
    from before[OF 2] show ?thesis by simp
  next
    case 3
    from before[OF 3] show ?thesis by simp
  next
    case 4
    from before[OF 4] show ?thesis by simp
  next
    case 5
    from k(1) have "f ! k \<in> set f" by (rule nth_mem)
    with k(2) 5 show ?thesis by simp
  qed
qed

subsection \<open>Idempotence\<close>

lemma clean_symptom_input_pieces:
  "clean_symptom_input vocabulary x =
     filter (\<lambda>t. t \<in> set vocabulary) (split_on_runs (remove_fillers filler_words (lower x)))"
proof -
  have "map strip (split_on_runs s) = split_on_runs s" for s
    by (rule map_idI) (simp add: strip_no_sep split_on_runs_pieces)
  then show ?thesis
    by (simp add: clean_symptom_input_def comprehension_filter_map re_split_runs)
qed

text \<open>
  The tokens of an extraction: vocabulary members without separator and without upper
  case letter, in which no filler word occurs.
\<close>

lemma extracted_tokens:
  assumes "t \<in> set (clean_symptom_input vocabulary x)"
  shows "t \<in> set vocabulary" and "\<forall>c\<in>set t. \<not> is_sep c" and "\<forall>c\<in>set t. lower_char c = c"
    and "\<forall>f\<in>set filler_words. \<not> sublist f t"
proof -
  let ?y = "remove_fillers filler_words (lower x)"
  from assms have v: "t \<in> set vocabulary" and p: "t \<in> set (split_on_runs ?y)"
    by (simp_all add: clean_symptom_input_pieces)
  from split_on_runs_pieces[OF p] have ns: "\<forall>c\<in>set t. \<not> is_sep c" and sub: "sublist t ?y"
    by simp_all
  show "t \<in> set vocabulary" by (rule v)
  show "\<forall>c\<in>set t. \<not> is_sep c" by (rule ns)
  show "\<forall>c\<in>set t. lower_char c = c"
    using cleaned_text_lower[of filler_words x] set_mono_sublist[OF sub] by blast
  show "\<forall>f\<in>set filler_words. \<not> sublist f t"
  proof
    fix f assume f: "f \<in> set filler_words"
    show "\<not> sublist f t"
    proof
      assume ft: "sublist f t"
      show False
      proof (cases "CHR '' '' \<in> set f")
        case True
        with set_mono_sublist[OF ft] have "CHR '' '' \<in> set t" by blast
        with ns is_sep_space show False by blast
      next
        case False
        moreover from f filler_words_shape have "f \<noteq> []" by blast
        ultimately have "\<not> sublist f ?y" using f by (rule remove_fillers_removes)
        moreover from ft sub have "sublist f ?y" by (rule sublist_order.order.trans)
        ultimately show False by contradiction
      qed
    qed
  qed
qed

text \<open>
  C8, as amended. The extractor is idempotent on its own output when no vocabulary
  member is the empty string and the output is joined by a run of commas and white
  space that is not a single space (\<open>","\<close> or \<open>", "\<close>), or by a single space when no
  filler word is spelt across the joint of two vocabulary members, which holds when no
  member ends in \<open>i\<close> or in \<open>suffering\<close>. For every such vocabulary and every text, so
  also for every comma or space separated list of vocabulary members, extracting from
  the joined output of a first extraction gives the token list of the first extraction.
\<close>

theorem extract_idempotent_joined:
  assumes "[] \<notin> set vocabulary"
      and "sep \<noteq> []" and "\<forall>c\<in>set sep. is_sep c"
      and "sep = '' '' \<longrightarrow>
             (\<forall>t1\<in>set vocabulary. \<forall>t2\<in>set vocabulary. \<forall>f\<in>set filler_words.
                \<not> spelt_across f t1 t2)"
  shows "clean_symptom_input vocabulary (join sep (clean_symptom_input vocabulary rawText))
           = clean_symptom_input vocabulary rawText"
proof -
  define out where "out = clean_symptom_input vocabulary rawText"
  have v: "\<forall>t\<in>set out. t \<in> set vocabulary"
    and ns: "\<forall>t\<in>set out. \<forall>c\<in>set t. \<not> is_sep c"
    and lo: "\<forall>t\<in>set out. \<forall>c\<in>set t. lower_char c = c"
    and nf: "\<forall>f\<in>set filler_words. \<forall>t\<in>set out. \<not> sublist f t"
    unfolding out_def using extracted_tokens by blast+
  from v assms(1) have ne: "\<forall>t\<in>set out. t \<noteq> []" by blast
  have "\<forall>c\<in>set (join sep out). lower_char c = c"
    using set_join[of sep out] lo assms(3) lower_char_sep by blast
  then have 1: "lower (join sep out) = join sep out" by (rule lower_fixed)
  have "\<forall>f\<in>set filler_words. \<not> sublist f (join sep out)"
  proof
    fix f assume f: "f \<in> set filler_words"
    have a: "\<forall>t\<in>set out. t \<noteq> [] \<and> (\<forall>c\<in>set t. \<not> is_sep c) \<and> \<not> sublist f t"
      using ne ns nf f by blast
    have b: "sep = '' '' \<longrightarrow> (\<forall>t1\<in>set out. \<forall>t2\<in>set out. \<not> spelt_across f t1 t2)"
      using assms(4) v f by blast
    from no_phrase_in_join[OF f assms(2,3) a b] show "\<not> sublist f (join sep out)" .
  qed
  then have 2: "remove_fillers filler_words (join sep out) = join sep out"
    by (rule remove_fillers_absent)
  have "clean_symptom_input vocabulary (join sep out) = out"
  proof (cases "out = []")
    case True
    have "remove_fillers filler_words [] = []"
      using filler_words_shape by (intro remove_fillers_Nil) blast
    with True show ?thesis using assms(1)
      by (simp add: clean_symptom_input_pieces lower_def split_on_runs_Nil)
  next
    case False
    from split_join[OF assms(2,3) False] ne ns
    have "split_on_runs (join sep out) = out" by blast
    then have "clean_symptom_input vocabulary (join sep out)
                 = filter (\<lambda>t. t \<in> set vocabulary) out"
      by (simp add: clean_symptom_input_pieces 1 2)
    also have "\<dots> = out" using v by (simp add: filter_id_conv)
    finally show ?thesis .
  qed
  then show ?thesis by (simp add: out_def)
qed

theorem extract_idempotent_joined_witness:
  "[] \<notin> set [''fever'', ''cough'', ''rash'']
   \<and> '' '' \<noteq> []
   \<and> clean_symptom_input [''fever'', ''cough'', ''rash''] ''Fever, cough and chills''
       = [''fever'', ''cough'']
   \<and> join '' '' [''fever'', ''cough''] = ''fever cough''
   \<and> clean_symptom_input [''fever'', ''cough'', ''rash''] ''fever cough'' = [''fever'', ''cough'']
   \<and> join '', '' [''fever'', ''cough''] = ''fever, cough''
   \<and> clean_symptom_input [''fever'', ''cough'', ''rash''] ''fever, cough'' = [''fever'', ''cough'']"
proof -
  let ?V = "[''fever'', ''cough'', ''rash'']"
  have h1: "[] \<notin> set ?V" by simp
  have h2: "'' '' \<noteq> []" by simp
  have h3: "\<forall>c\<in>set '' ''. is_sep c" by (simp add: is_sep_def is_space_def)
  have h4: "'' '' = '' '' \<longrightarrow>
             (\<forall>t1\<in>set ?V. \<forall>t2\<in>set ?V. \<forall>f\<in>set filler_words. \<not> spelt_across f t1 t2)"
  proof (intro impI ballI notI)
    fix t1 t2 f
    assume "t1 \<in> set ?V" and f: "f \<in> set filler_words" and "spelt_across f t1 t2"
    from spelt_across_ending[OF f this(3)] \<open>t1 \<in> set ?V\<close> show False
      by (auto simp: suffix_def)
  qed
  have g2: "'', '' \<noteq> []" by simp
  have g3: "\<forall>c\<in>set '', ''. is_sep c" by (simp add: is_sep_def is_space_def)
  have g4: "'', '' = '' '' \<longrightarrow>
             (\<forall>t1\<in>set ?V. \<forall>t2\<in>set ?V. \<forall>f\<in>set filler_words. \<not> spelt_across f t1 t2)"
    by simp
  have a: "clean_symptom_input ?V ''Fever, cough and chills'' = [''fever'', ''cough'']"
    by code_simp
  have j: "join '' '' [''fever'', ''cough''] = ''fever cough''" by simp
  have j': "join '', '' [''fever'', ''cough''] = ''fever, cough''" by simp
  from extract_idempotent_joined [OF h1 h2 h3 h4, of "''Fever, cough and chills''"]
  have s: "clean_symptom_input ?V ''fever cough'' = [''fever'', ''cough'']"
    unfolding a j .
  from extract_idempotent_joined [OF h1 g2 g3 g4, of "''Fever, cough and chills''"]
  have c: "clean_symptom_input ?V ''fever, cough'' = [''fever'', ''cough'']"
    unfolding a j' .
  from h1 h2 a j s j' c show ?thesis by blast
qed

text \<open>
  C8 as stated, with the output joined by single spaces, fails for a vocabulary in
  which a filler word is spelt across a joint. With the vocabulary \<open>i\<close>, \<open>have\<close>, the
  list \<open>i,have\<close> gives both tokens, and extracting from \<open>i have\<close> gives none.
\<close>

theorem extract_space_joined_counterexample:
  "clean_symptom_input [''i'', ''have''] ''i,have'' = [''i'', ''have'']
   \<and> join '' '' (clean_symptom_input [''i'', ''have''] ''i,have'') = ''i have''
   \<and> clean_symptom_input [''i'', ''have'']
         (join '' '' (clean_symptom_input [''i'', ''have''] ''i,have'')) = []
   \<and> clean_symptom_input [''i'', ''have'']
         (join '' '' (clean_symptom_input [''i'', ''have''] ''i,have''))
       \<noteq> clean_symptom_input [''i'', ''have''] ''i,have''"
  by code_simp

text \<open>
  With the empty string in the vocabulary the joined empty output is itself a token.
\<close>

lemma empty_name_breaks_idempotence:
  "clean_symptom_input ['''', ''handy'']
      (join '','' (clean_symptom_input ['''', ''handy''] ''handy''))
   \<noteq> clean_symptom_input ['''', ''handy''] ''handy''"
  by code_simp

section \<open>Narrowing\<close>

lemma filter_candidates_filter:
  "filter_candidates cols us rs =
     filter (\<lambda>r. \<forall>s\<in>set us. s \<in> set cols \<longrightarrow> cell_at r s = Num 1) rs"
proof (induction us arbitrary: rs)
  case Nil
  show ?case by simp
next
  case (Cons u us)
  show ?case
  proof (cases "u \<in> set cols")
    case True
    then show ?thesis by (simp add: Cons.IH)
  next
    case False
    then show ?thesis by (simp add: Cons.IH)
  qed
qed

lemma length_filter_mono:
  assumes "\<And>x. x \<in> set xs \<Longrightarrow> P x \<Longrightarrow> Q x"
  shows "length (filter P xs) \<le> length (filter Q xs)"
proof -
  have "filter P xs = filter P (filter Q xs)"
    using assms by (auto intro: filter_cong)
  then show ?thesis by (metis length_filter_le)
qed

text \<open>
  C1. The rows that survive the narrowing loop are the rows of the table whose cell
  is 1 under every known symptom that names a column. Known symptoms that name no
  column change nothing, and two lists of known symptoms with the same elements give
  the same rows, whatever their order.
\<close>

theorem narrowing_keeps_rows_with_all_known_symptoms:
  "filter_candidates (columns t) us (rows t) =
     filter (\<lambda>r. \<forall>s\<in>set us. s \<in> set (columns t) \<longrightarrow> cell_at r s = Num 1) (rows t)
   \<and> filter_candidates (columns t) (filter (\<lambda>s. s \<in> set (columns t)) us) (rows t) =
       filter_candidates (columns t) us (rows t)
   \<and> (set us' = set us \<longrightarrow>
       filter_candidates (columns t) us' (rows t) = filter_candidates (columns t) us (rows t))"
proof (intro conjI impI)
  show "filter_candidates (columns t) us (rows t) =
     filter (\<lambda>r. \<forall>s\<in>set us. s \<in> set (columns t) \<longrightarrow> cell_at r s = Num 1) (rows t)"
    by (rule filter_candidates_filter)
  show "filter_candidates (columns t) (filter (\<lambda>s. s \<in> set (columns t)) us) (rows t) =
       filter_candidates (columns t) us (rows t)"
    unfolding filter_candidates_filter by (rule filter_cong) auto
  show "filter_candidates (columns t) us' (rows t) = filter_candidates (columns t) us (rows t)"
    if "set us' = set us"
    unfolding filter_candidates_filter that ..
qed

theorem narrowing_keeps_rows_with_all_known_symptoms_witness:
  "set [''cough'', ''chills'', ''fever''] = set [''fever'', ''cough'', ''chills'']
   \<and> map prognosis (filter_candidates (columns example_table) [''cough'', ''chills'', ''fever'']
         (rows example_table)) = [''flu'']
   \<and> map prognosis (filter (\<lambda>r. \<forall>s\<in>set [''fever'', ''cough'', ''chills''].
                       s \<in> set (columns example_table) \<longrightarrow> cell_at r s = Num 1)
         (rows example_table)) = [''flu'']"
proof -
  have h: "set [''cough'', ''chills'', ''fever''] = set [''fever'', ''cough'', ''chills'']"
    by auto
  have e: "map prognosis (filter_candidates (columns example_table)
             [''cough'', ''chills'', ''fever''] (rows example_table)) = [''flu'']"
    by code_simp
  from narrowing_keeps_rows_with_all_known_symptoms
         [of example_table "[''fever'', ''cough'', ''chills'']" "[''cough'', ''chills'', ''fever'']"] h
  have "filter_candidates (columns example_table) [''cough'', ''chills'', ''fever'']
          (rows example_table)
        = filter (\<lambda>r. \<forall>s\<in>set [''fever'', ''cough'', ''chills''].
                     s \<in> set (columns example_table) \<longrightarrow> cell_at r s = Num 1)
            (rows example_table)"
    by simp
  with h e show ?thesis by simp
qed

text \<open>
  C7. Narrowing is monotonic: with one more known symptom, in whatever order the
  symptoms are then enumerated, no more rows survive than before.
\<close>

theorem narrowing_monotonic:
  assumes "set us' = insert s (set us)"
  shows "length (filter_candidates (columns t) us' (rows t))
           \<le> length (filter_candidates (columns t) us (rows t))"
  unfolding filter_candidates_filter
  by (rule length_filter_mono) (simp add: assms)

theorem narrowing_monotonic_witness:
  "set [''fever'', ''cough''] = insert ''cough'' (set [''fever''])
   \<and> length (filter_candidates (columns example_table) [''fever'', ''cough''] (rows example_table))
       \<le> length (filter_candidates (columns example_table) [''fever''] (rows example_table))
   \<and> length (filter_candidates (columns example_table) [''fever'', ''cough''] (rows example_table)) = 1
   \<and> length (filter_candidates (columns example_table) [''fever''] (rows example_table)) = 2"
proof -
  have h: "set [''fever'', ''cough''] = insert ''cough'' (set [''fever''])"
    by auto
  have a: "length (filter_candidates (columns example_table) [''fever'', ''cough'']
             (rows example_table)) = 1"
    by code_simp
  have b: "length (filter_candidates (columns example_table) [''fever'']
             (rows example_table)) = 2"
    by code_simp
  from narrowing_monotonic [OF h, of example_table] a b h show ?thesis by blast
qed

section \<open>The action predict disease\<close>

lemma collect_remaining_filter:
  "''prognosis'' \<notin> set syms \<Longrightarrow>
   collect_remaining us cols cands syms acc =
     Inr (acc @ filter (\<lambda>s. s \<notin> set us \<and> s \<in> set cols
                          \<and> 0 < int64 (sum_list (map (\<lambda>r. cells r s) cands))) syms)"
  by (induction syms arbitrary: acc) (auto simp: column_sum_positive_def)

lemma collect_remaining_type_error:
  "cands \<noteq> [] \<Longrightarrow> ''prognosis'' \<in> set syms \<Longrightarrow> ''prognosis'' \<notin> set us \<Longrightarrow>
   ''prognosis'' \<in> set cols \<Longrightarrow>
   collect_remaining us cols cands syms acc = Inl TypeError"
  by (induction syms arbitrary: acc) (auto simp: column_sum_positive_def split: bool.splits)

text \<open>
  The sum of \<open>2 ^ 63 - 1\<close> and 1 wraps to \<open>- (2 ^ 63)\<close>, which is not greater than
  zero.
\<close>

lemma column_sum_wraps:
  "column_sum_positive
     [\<lparr>prognosis = ''a'', cells = (\<lambda>c. 2 ^ 63 - 1)\<rparr>, \<lparr>prognosis = ''b'', cells = (\<lambda>c. 1)\<rparr>]
     ''x'' = Inr False"
  by (simp add: column_sum_positive_def int64_def)

text \<open>A sum that fits 64 bits is not changed by the wrap-around.\<close>

lemma int64_id: "- (2 ^ 63) \<le> n \<Longrightarrow> n < 2 ^ 63 \<Longrightarrow> int64 n = n"
  by (simp add: int64_def)

lemma sum_indicators:
  "\<forall>r\<in>set rs. f r = 0 \<or> f r = (1::int) \<Longrightarrow>
   0 \<le> sum_list (map f rs) \<and> sum_list (map f rs) \<le> int (length rs)"
  by (induction rs) auto

lemma filter_candidates_rows:
  "set (filter_candidates cols us rs) \<subseteq> set rs"
  "length (filter_candidates cols us rs) \<le> length rs"
  by (simp_all add: filter_candidates_filter)

lemma indicator_column_sum:
  assumes "\<forall>r\<in>set rs. cells r s = 0 \<or> cells r s = 1" and "length rs < 2 ^ 63"
  shows "int64 (sum_list (map (\<lambda>r. cells r s) (filter_candidates cols us rs)))
           = sum_list (map (\<lambda>r. cells r s) (filter_candidates cols us rs))"
proof -
  let ?c = "filter_candidates cols us rs"
  from assms(1) filter_candidates_rows(1)[of cols us rs]
  have "\<forall>r\<in>set ?c. cells r s = 0 \<or> cells r s = 1" by blast
  from sum_indicators[OF this]
  have "0 \<le> sum_list (map (\<lambda>r. cells r s) ?c)"
    and "sum_list (map (\<lambda>r. cells r s) ?c) \<le> int (length ?c)" by simp_all
  moreover have "int (length ?c) < 2 ^ 63"
    using filter_candidates_rows(2)[of cols us rs] assms(2)
    by (metis (mono_tags) le_less_trans of_nat_less_iff of_nat_numeral of_nat_power)
  ultimately show ?thesis by (intro int64_id) linarith+
qed

text \<open>
  When a second column is spelt \<open>prognosis\<close> in lower case, the ambiguous branch ends
  with the TypeError of line 89.
\<close>

lemma ambiguous_type_error:
  assumes "clean_symptom_input (all_symptoms ds) (latest_message_text tr) \<noteq> []"
      and "''prognosis'' \<in> set (columns ds)"
      and "2 \<le> length (filter_candidates (columns ds) us (rows ds))"
      and "''prognosis'' \<in> set (all_symptoms ds)"
  shows "action_predict_disease ds di tr us = Inl TypeError"
proof -
  let ?cands = "filter_candidates (columns ds) us (rows ds)"
  obtain r r' rs where c: "?cands = r # r' # rs"
    using assms(3) by (cases ?cands; cases "tl ?cands") auto
  have "''prognosis'' \<notin> set us"
  proof
    assume "''prognosis'' \<in> set us"
    with assms(2) have "?cands = []"
      unfolding filter_candidates_filter by (auto simp: filter_empty_conv cell_at_def)
    with c show False by simp
  qed
  with assms(2,4) c
  have "collect_remaining us (columns ds) ?cands (all_symptoms ds) [] = Inl TypeError"
    by (intro collect_remaining_type_error) simp_all
  with assms(1,2) c show ?thesis by (simp add: action_predict_disease_def)
qed

text \<open>
  C2. Provided a symptom was recognised, the table has its \<open>prognosis\<close> column and no
  other column is spelt \<open>prognosis\<close> in lower case: when exactly one row survives the
  filtering, the run takes the branch of the unique match, with the disease of that
  row; it sets \<open>predicted_disease\<close> exactly when exactly one row survives. With two or
  more surviving rows it takes the ambiguous branch, whatever the disease names of
  those rows are, also when they are all the same: the loop of lines 87 to 90 returns,
  \<open>possible_diseases\<close> is set to the names of all surviving rows, in row order, and
  \<open>remaining_symptoms_to_ask\<close> to the first five of what the loop collected.
\<close>

theorem unique_match_iff_one_row:
  fixes ds :: sd_table and us :: "string list"
  defines "cands \<equiv> filter_candidates (columns ds) us (rows ds)"
  assumes "clean_symptom_input (all_symptoms ds) (latest_message_text tr) \<noteq> []"
      and "''prognosis'' \<in> set (columns ds)"
      and "''prognosis'' \<notin> set (all_symptoms ds)"
  shows "(\<forall>r. cands = [r] \<longrightarrow>
            action_predict_disease ds di tr us =
              Inr ([most_likely_message di (prognosis r)],
                   [SlotSet_symptoms us, SlotSet_possible_diseases [prognosis r],
                    SlotSet_predicted_disease (prognosis r)]))
       \<and> ((\<exists>ms evs d. action_predict_disease ds di tr us = Inr (ms, evs)
                       \<and> SlotSet_predicted_disease d \<in> set evs)
            \<longleftrightarrow> length cands = 1)
       \<and> (2 \<le> length cands \<longrightarrow>
            (\<exists>remaining.
               collect_remaining us (columns ds) cands (all_symptoms ds) [] = Inr remaining
               \<and> action_predict_disease ds di tr us =
                   Inr ([if remaining \<noteq> [] then AskAlso (join '', '' (take 5 remaining))
                         else PossibleDiseases (join '', '' (map prognosis cands))],
                        [SlotSet_symptoms us,
                         SlotSet_possible_diseases (map prognosis cands),
                         SlotSet_remaining_symptoms_to_ask (take 5 remaining)])))"
proof -
  note cr = collect_remaining_filter[OF assms(4), of us "columns ds" cands "[]"]
  have one: "action_predict_disease ds di tr us =
              Inr ([most_likely_message di (prognosis r)],
                   [SlotSet_symptoms us, SlotSet_possible_diseases [prognosis r],
                    SlotSet_predicted_disease (prognosis r)])" if "cands = [r]" for r
    using that assms(2,3) by (simp add: action_predict_disease_def cands_def)
  have many: "\<exists>remaining.
               collect_remaining us (columns ds) cands (all_symptoms ds) [] = Inr remaining
               \<and> action_predict_disease ds di tr us =
                   Inr ([if remaining \<noteq> [] then AskAlso (join '', '' (take 5 remaining))
                         else PossibleDiseases (join '', '' (map prognosis cands))],
                        [SlotSet_symptoms us,
                         SlotSet_possible_diseases (map prognosis cands),
                         SlotSet_remaining_symptoms_to_ask (take 5 remaining)])"
    if two: "2 \<le> length cands"
  proof -
    obtain r r' rs where c: "cands = r # r' # rs"
      using two by (cases cands; cases "tl cands") auto
    show ?thesis
      using assms(2,3) c cr c[unfolded cands_def]
      by (simp add: action_predict_disease_def cands_def[symmetric])
  qed
  have none: "action_predict_disease ds di tr us =
              Inr ([NoMatch], [SlotSet_symptoms us, SlotSet_possible_diseases []])"
    if "cands = []"
    using that assms(2,3) by (simp add: action_predict_disease_def cands_def)
  have iff: "(\<exists>ms evs d. action_predict_disease ds di tr us = Inr (ms, evs)
                       \<and> SlotSet_predicted_disease d \<in> set evs)
            \<longleftrightarrow> length cands = 1"
  proof (cases cands)
    case Nil
    with none show ?thesis by auto
  next
    case (Cons r rs)
    show ?thesis
    proof (cases rs)
      case Nil
      with Cons one[of r] show ?thesis by auto
    next
      case (Cons r' rs')
      with \<open>cands = r # rs\<close> have "2 \<le> length cands" by simp
      from many[OF this] Cons \<open>cands = r # rs\<close> show ?thesis by auto
    qed
  qed
  from one many iff show ?thesis by blast
qed

theorem unique_match_iff_one_row_witness:
  "clean_symptom_input (all_symptoms twin_table)
       (latest_message_text (tracker_saying ''I have fever and cough'')) \<noteq> []
   \<and> ''prognosis'' \<in> set (columns twin_table)
   \<and> ''prognosis'' \<notin> set (all_symptoms twin_table)
   \<and> map prognosis (filter_candidates (columns twin_table) [''fever'', ''cough''] (rows twin_table))
       = [''flu'', ''flu'']
   \<and> \<not> (\<exists>ms evs d. action_predict_disease twin_table example_info
                (tracker_saying ''I have fever and cough'') [''fever'', ''cough''] = Inr (ms, evs)
              \<and> SlotSet_predicted_disease d \<in> set evs)
   \<and> action_predict_disease twin_table example_info
         (tracker_saying ''I have fever and cough'') [''fever'', ''cough''] =
       Inr ([PossibleDiseases ''flu, flu''],
            [SlotSet_symptoms [''fever'', ''cough''], SlotSet_possible_diseases [''flu'', ''flu''],
             SlotSet_remaining_symptoms_to_ask []])
   \<and> map prognosis (filter_candidates (columns example_table) [''fever'', ''cough'']
         (rows example_table)) = [''flu'']
   \<and> action_predict_disease example_table example_info
         (tracker_saying ''I have fever and cough'') [''fever'', ''cough''] =
       Inr ([MostLikelyWithDetails ''flu'' ''a viral infection'' ''rest'' ''a yearly vaccine''],
            [SlotSet_symptoms [''fever'', ''cough''], SlotSet_possible_diseases [''flu''],
             SlotSet_predicted_disease ''flu''])"
proof -
  let ?said = "tracker_saying ''I have fever and cough''"
  let ?us = "[''fever'', ''cough'']"
  have h1: "clean_symptom_input (all_symptoms twin_table) (latest_message_text ?said) \<noteq> []"
    by code_simp
  have h2: "''prognosis'' \<in> set (columns twin_table)"
    by code_simp
  have h3: "''prognosis'' \<notin> set (all_symptoms twin_table)"
    by code_simp
  have n: "map prognosis (filter_candidates (columns twin_table) ?us (rows twin_table))
             = [''flu'', ''flu'']"
    by code_simp
  then have l: "length (filter_candidates (columns twin_table) ?us (rows twin_table)) = 2"
    by (metis length_map length_Cons list.size(3) numeral_2_eq_2)
  have l2: "2 \<le> length (filter_candidates (columns twin_table) ?us (rows twin_table))"
    unfolding l by simp
  note twin = unique_match_iff_one_row [OF h1 h2 h3, where di = example_info and us = ?us]
  from twin [THEN conjunct2, THEN conjunct1, unfolded l]
  have a: "\<not> (\<exists>ms evs d. action_predict_disease twin_table example_info ?said ?us = Inr (ms, evs)
              \<and> SlotSet_predicted_disease d \<in> set evs)"
    by simp
  have rem: "collect_remaining ?us (columns twin_table)
               (filter_candidates (columns twin_table) ?us (rows twin_table))
               (all_symptoms twin_table) [] = Inr []"
    by code_simp
  from twin [THEN conjunct2, THEN conjunct2, THEN mp, OF l2, unfolded rem n]
  have b: "action_predict_disease twin_table example_info ?said ?us =
       Inr ([PossibleDiseases ''flu, flu''],
            [SlotSet_symptoms ?us, SlotSet_possible_diseases [''flu'', ''flu''],
             SlotSet_remaining_symptoms_to_ask []])"
    by simp
  have g1: "clean_symptom_input (all_symptoms example_table) (latest_message_text ?said) \<noteq> []"
    by code_simp
  have g2: "''prognosis'' \<in> set (columns example_table)"
    by code_simp
  have g3: "''prognosis'' \<notin> set (all_symptoms example_table)"
    by code_simp
  have c: "filter_candidates (columns example_table) ?us (rows example_table) = [flu_row]"
    by (simp add: example_table_def flu_row_def measles_row_def cell_at_def)
  have p: "prognosis flu_row = ''flu''" by (simp add: flu_row_def)
  have m: "most_likely_message example_info ''flu'' =
             MostLikelyWithDetails ''flu'' ''a viral infection'' ''rest'' ''a yearly vaccine''"
    by (simp add: most_likely_message_def lookup_def example_info_def)
  from unique_match_iff_one_row
         [OF g1 g2 g3, where di = example_info and us = ?us, THEN conjunct1, THEN spec, THEN mp, OF c]
  have d: "action_predict_disease example_table example_info ?said ?us =
       Inr ([MostLikelyWithDetails ''flu'' ''a viral infection'' ''rest'' ''a yearly vaccine''],
            [SlotSet_symptoms ?us, SlotSet_possible_diseases [''flu''],
             SlotSet_predicted_disease ''flu''])"
    by (simp add: p m)
  have e: "map prognosis (filter_candidates (columns example_table) ?us (rows example_table))
             = [''flu'']"
    unfolding c by (simp add: p)
  from h1 h2 h3 n a b e d show ?thesis by blast
qed

text \<open>
  C4. In the ambiguous branch (two or more surviving rows), for a table of indicator
  cells (each 0 or 1) with fewer than \<open>2 ^ 63\<close> rows in which no column other than
  \<open>prognosis\<close> is spelt \<open>prognosis\<close> in lower case, \<open>remaining_symptoms_to_ask\<close> is
  set to the first five at most, in the order of \<open>all_symptoms\<close>, of the symptoms
  that are not known, name a column and have a column sum over the surviving rows
  greater than zero. The list has at most five elements and none of them is a known
  symptom. It can be empty in the ambiguous branch: the table with two flu rows, after
  fever and cough.
\<close>

theorem remaining_symptoms_first_five:
  fixes ds :: sd_table and us :: "string list"
  defines "cands \<equiv> filter_candidates (columns ds) us (rows ds)"
  defines "asked \<equiv> take 5 (filter (\<lambda>s. s \<notin> set us \<and> s \<in> set (columns ds)
                                      \<and> 0 < sum_list (map (\<lambda>r. cells r s) cands))
                               (all_symptoms ds))"
  assumes "clean_symptom_input (all_symptoms ds) (latest_message_text tr) \<noteq> []"
      and "''prognosis'' \<in> set (columns ds)"
      and "2 \<le> length cands"
      and "''prognosis'' \<notin> set (all_symptoms ds)"
      and "\<forall>r\<in>set (rows ds). \<forall>c\<in>set (columns ds).
             c \<noteq> ''prognosis'' \<longrightarrow> cells r c = 0 \<or> cells r c = 1"
      and "length (rows ds) < 2 ^ 63"
  shows "(\<exists>m. action_predict_disease ds di tr us =
              Inr ([m], [SlotSet_symptoms us, SlotSet_possible_diseases (map prognosis cands),
                         SlotSet_remaining_symptoms_to_ask asked]))
         \<and> length asked \<le> 5
         \<and> set asked \<inter> set us = {}
         \<and> action_predict_disease twin_table example_info
              (tracker_saying ''I have fever and cough'') [''fever'', ''cough''] =
            Inr ([PossibleDiseases ''flu, flu''],
                 [SlotSet_symptoms [''fever'', ''cough''],
                  SlotSet_possible_diseases [''flu'', ''flu''],
                  SlotSet_remaining_symptoms_to_ask []])"
proof (intro conjI)
  obtain r r' rs where c: "cands = r # r' # rs"
    using assms(5) by (cases cands; cases "tl cands") auto
  have wrap: "filter (\<lambda>s. s \<notin> set us \<and> s \<in> set (columns ds)
                        \<and> 0 < int64 (sum_list (map (\<lambda>r. cells r s) cands)))
                (all_symptoms ds)
            = filter (\<lambda>s. s \<notin> set us \<and> s \<in> set (columns ds)
                        \<and> 0 < sum_list (map (\<lambda>r. cells r s) cands))
                (all_symptoms ds)"
  proof (rule filter_cong[OF refl])
    fix s assume s: "s \<in> set (all_symptoms ds)"
    show "(s \<notin> set us \<and> s \<in> set (columns ds)
            \<and> 0 < int64 (sum_list (map (\<lambda>r. cells r s) cands)))
        = (s \<notin> set us \<and> s \<in> set (columns ds)
            \<and> 0 < sum_list (map (\<lambda>r. cells r s) cands))"
    proof (cases "s \<in> set (columns ds)")
      case True
      from s assms(6) have "s \<noteq> ''prognosis''" by auto
      with True assms(7) have "\<forall>r\<in>set (rows ds). cells r s = 0 \<or> cells r s = 1" by blast
      from indicator_column_sum[OF this assms(8), of "columns ds" us]
      show ?thesis by (simp add: cands_def)
    next
      case False
      then show ?thesis by simp
    qed
  qed
  show "\<exists>m. action_predict_disease ds di tr us =
              Inr ([m], [SlotSet_symptoms us, SlotSet_possible_diseases (map prognosis cands),
                         SlotSet_remaining_symptoms_to_ask asked])"
    using assms(3,4) c[unfolded cands_def]
      collect_remaining_filter[OF assms(6), of us "columns ds" cands "[]"] wrap
    by (simp add: action_predict_disease_def asked_def cands_def)
  show "length asked \<le> 5" by (simp add: asked_def)
  show "set asked \<inter> set us = {}"
    unfolding asked_def by (auto dest!: in_set_takeD)
  show "action_predict_disease twin_table example_info
              (tracker_saying ''I have fever and cough'') [''fever'', ''cough''] =
            Inr ([PossibleDiseases ''flu, flu''],
                 [SlotSet_symptoms [''fever'', ''cough''],
                  SlotSet_possible_diseases [''flu'', ''flu''],
                  SlotSet_remaining_symptoms_to_ask []])"
    by code_simp
qed

theorem remaining_symptoms_first_five_witness:
  "clean_symptom_input (all_symptoms example_table)
       (latest_message_text (tracker_saying ''I have fever'')) \<noteq> []
   \<and> ''prognosis'' \<in> set (columns example_table)
   \<and> 2 \<le> length (filter_candidates (columns example_table) [''fever''] (rows example_table))
   \<and> ''prognosis'' \<notin> set (all_symptoms example_table)
   \<and> length (rows example_table) < 2 ^ 63
   \<and> (\<exists>m. action_predict_disease example_table example_info (tracker_saying ''I have fever'')
              [''fever''] =
            Inr ([m], [SlotSet_symptoms [''fever''],
                       SlotSet_possible_diseases [''flu'', ''measles''],
                       SlotSet_remaining_symptoms_to_ask [''cough'', ''rash'']]))"
proof -
  have h1: "clean_symptom_input (all_symptoms example_table)
       (latest_message_text (tracker_saying ''I have fever'')) \<noteq> []"
    by code_simp
  have h2: "''prognosis'' \<in> set (columns example_table)"
    by code_simp
  have h3: "2 \<le> length (filter_candidates (columns example_table) [''fever'']
                           (rows example_table))"
    by code_simp
  have h4: "''prognosis'' \<notin> set (all_symptoms example_table)"
    by code_simp
  have h5: "\<forall>r\<in>set (rows example_table). \<forall>c\<in>set (columns example_table).
              c \<noteq> ''prognosis'' \<longrightarrow> cells r c = 0 \<or> cells r c = 1"
    by (simp add: example_table_def flu_row_def measles_row_def)
  have h6: "length (rows example_table) < 2 ^ 63"
    by (simp add: example_table_def)
  have c: "map prognosis (filter_candidates (columns example_table) [''fever'']
                           (rows example_table)) = [''flu'', ''measles'']"
    by code_simp
  have a: "take 5 (filter (\<lambda>s. s \<notin> set [''fever''] \<and> s \<in> set (columns example_table)
                     \<and> 0 < sum_list (map (\<lambda>r. cells r s)
                             (filter_candidates (columns example_table) [''fever'']
                                (rows example_table))))
                   (all_symptoms example_table)) = [''cough'', ''rash'']"
    by code_simp
  from remaining_symptoms_first_five [OF h1 h2 h3 h4 h5 h6, of example_info]
  have "\<exists>m. action_predict_disease example_table example_info (tracker_saying ''I have fever'')
              [''fever''] =
            Inr ([m], [SlotSet_symptoms [''fever''],
                       SlotSet_possible_diseases [''flu'', ''measles''],
                       SlotSet_remaining_symptoms_to_ask [''cough'', ''rash'']])"
    unfolding c a by blast
  with h1 h2 h3 h4 h6 show ?thesis by blast
qed

text \<open>
  C5. When no symptom is recognised in the message, the run utters the request to
  rephrase and returns no event, so no slot changes.
\<close>

theorem no_symptom_recognised:
  assumes "clean_symptom_input (all_symptoms ds) (latest_message_text tr) = []"
  shows "action_predict_disease ds di tr us = Inr ([Rephrase], [])
         \<and> apply_events [] (get_slot tr) = get_slot tr"
  using assms by (simp add: action_predict_disease_def apply_events_def)

theorem no_symptom_recognised_witness:
  "clean_symptom_input (all_symptoms example_table)
      (latest_message_text (tracker_saying ''I have chills'')) = []
   \<and> action_predict_disease example_table example_info (tracker_saying ''I have chills'') []
       = Inr ([Rephrase], [])"
proof -
  have h: "clean_symptom_input (all_symptoms example_table)
      (latest_message_text (tracker_saying ''I have chills'')) = []"
    by code_simp
  from no_symptom_recognised [OF h, of example_info "[]"] h show ?thesis by blast
qed

text \<open>
  C6. When a symptom was recognised and no row survives, the run utters the no-match
  message and returns two events: \<open>symptoms\<close> is set to the enumeration of the stored
  and the new symptoms, \<open>possible_diseases\<close> to the empty list. Applying them leaves
  \<open>predicted_disease\<close> and \<open>remaining_symptoms_to_ask\<close> as they were.
\<close>

theorem no_match_updates:
  assumes "clean_symptom_input (all_symptoms ds) (latest_message_text tr) \<noteq> []"
      and "''prognosis'' \<in> set (columns ds)"
      and "list_of_set us (merged_symptoms ds tr)"
      and "filter_candidates (columns ds) us (rows ds) = []"
  shows "action_predict_disease ds di tr us =
           Inr ([NoMatch], [SlotSet_symptoms us, SlotSet_possible_diseases []])
         \<and> apply_events [SlotSet_symptoms us, SlotSet_possible_diseases []] (get_slot tr) =
             (get_slot tr)\<lparr>slot_symptoms := Some us, slot_possible_diseases := Some []\<rparr>
         \<and> slot_predicted_disease
               (apply_events [SlotSet_symptoms us, SlotSet_possible_diseases []] (get_slot tr))
             = slot_predicted_disease (get_slot tr)
         \<and> slot_remaining_symptoms_to_ask
               (apply_events [SlotSet_symptoms us, SlotSet_possible_diseases []] (get_slot tr))
             = slot_remaining_symptoms_to_ask (get_slot tr)
         \<and> set us = set (case slot_symptoms (get_slot tr) of None \<Rightarrow> [] | Some stored \<Rightarrow> stored)
                     \<union> set (clean_symptom_input (all_symptoms ds) (latest_message_text tr))"
  using assms
  by (simp add: action_predict_disease_def apply_events_def list_of_set_def merged_symptoms_def)

theorem no_match_updates_witness:
  "clean_symptom_input (all_symptoms example_table)
      (latest_message_text (tracker_with ''and rash'' known_fever_cough)) \<noteq> []
   \<and> ''prognosis'' \<in> set (columns example_table)
   \<and> list_of_set [''rash'', ''fever'', ''cough'']
        (merged_symptoms example_table (tracker_with ''and rash'' known_fever_cough))
   \<and> filter_candidates (columns example_table) [''rash'', ''fever'', ''cough'']
        (rows example_table) = []
   \<and> action_predict_disease example_table example_info
        (tracker_with ''and rash'' known_fever_cough) [''rash'', ''fever'', ''cough''] =
      Inr ([NoMatch], [SlotSet_symptoms [''rash'', ''fever'', ''cough''],
                       SlotSet_possible_diseases []])
   \<and> slot_predicted_disease
         (apply_events [SlotSet_symptoms [''rash'', ''fever'', ''cough''],
                        SlotSet_possible_diseases []]
            (get_slot (tracker_with ''and rash'' known_fever_cough)))
       = Some ''flu''"
proof -
  have h1: "clean_symptom_input (all_symptoms example_table)
      (latest_message_text (tracker_with ''and rash'' known_fever_cough)) \<noteq> []"
    by code_simp
  have h2: "''prognosis'' \<in> set (columns example_table)"
    by code_simp
  have h3: "list_of_set [''rash'', ''fever'', ''cough'']
        (merged_symptoms example_table (tracker_with ''and rash'' known_fever_cough))"
    by code_simp
  have h4: "filter_candidates (columns example_table) [''rash'', ''fever'', ''cough'']
        (rows example_table) = []"
    by code_simp
  have p: "slot_predicted_disease (get_slot (tracker_with ''and rash'' known_fever_cough))
             = Some ''flu''"
    by code_simp
  from no_match_updates [OF h1 h2 h3 h4, of example_info] h1 h2 h3 h4 p
  show ?thesis by simp
qed

section \<open>The info lookup and the action get disease info\<close>

lemma lookup_find:
  "lookup di name =
     map_option (\<lambda>r. (description r, treatment r, prevention r)) (find (\<lambda>r. disease r = name) di)"
  by (induction di) (simp_all add: lookup_def)

lemma lookup_None_iff: "lookup di name = None \<longleftrightarrow> (\<forall>r\<in>set di. disease r \<noteq> name)"
  by (auto simp: lookup_find find_None_iff)

text \<open>
  C9. The lookup returns the three fields of the first row of the info table whose
  disease equals the name, and nothing when no row does; it is total, so no name makes
  it fail. When it returns nothing, the predict action utters the message with the
  name only, and so does the info action; when it returns the fields, both utter
  them. When the \<open>predicted_disease\<close> slot is absent, the info action asks which
  disease to explain.
\<close>

theorem lookup_first_match_or_empty:
  "lookup di name =
     map_option (\<lambda>r. (description r, treatment r, prevention r)) (find (\<lambda>r. disease r = name) di)
   \<and> (lookup di name = None \<longleftrightarrow> (\<forall>r\<in>set di. disease r \<noteq> name))
   \<and> (lookup di name = None \<longrightarrow> most_likely_message di name = MostLikely name)
   \<and> (lookup di name = Some (a, b, c) \<longrightarrow>
        most_likely_message di name = MostLikelyWithDetails name a b c)
   \<and> (lookup di name = None \<and> name \<noteq> [] \<and> slot_predicted_disease (get_slot tr) = Some name
        \<longrightarrow> action_get_disease_info di tr = ([NoDetails name], []))
   \<and> (lookup di name = Some (a, b, c) \<and> name \<noteq> []
          \<and> slot_predicted_disease (get_slot tr) = Some name
        \<longrightarrow> action_get_disease_info di tr = ([Details a b c], []))
   \<and> (slot_predicted_disease (get_slot tr) = None
        \<longrightarrow> action_get_disease_info di tr = ([WhichDisease], []))"
  by (simp add: lookup_find[symmetric] lookup_None_iff[symmetric] most_likely_message_def
        action_get_disease_info_def)

theorem lookup_first_match_or_empty_witness:
  "lookup example_info ''flu'' = Some (''a viral infection'', ''rest'', ''a yearly vaccine'')
   \<and> find (\<lambda>r. disease r = ''flu'') example_info =
       Some \<lparr>disease = ''flu'', description = ''a viral infection'', treatment = ''rest'',
             prevention = ''a yearly vaccine''\<rparr>
   \<and> most_likely_message example_info ''flu'' =
       MostLikelyWithDetails ''flu'' ''a viral infection'' ''rest'' ''a yearly vaccine''
   \<and> lookup example_info ''malaria'' = None
   \<and> most_likely_message example_info ''malaria'' = MostLikely ''malaria''
   \<and> action_get_disease_info example_info
        (tracker_with ''tell me more'' (no_slots\<lparr>slot_predicted_disease := Some ''malaria''\<rparr>))
       = ([NoDetails ''malaria''], [])
   \<and> action_get_disease_info example_info (tracker_with ''tell me more'' no_slots)
       = ([WhichDisease], [])"
proof -
  let ?named = "tracker_with ''tell me more'' (no_slots\<lparr>slot_predicted_disease := Some ''malaria''\<rparr>)"
  let ?bare = "tracker_with ''tell me more'' no_slots"
  have f: "find (\<lambda>r. disease r = ''flu'') example_info =
       Some \<lparr>disease = ''flu'', description = ''a viral infection'', treatment = ''rest'',
             prevention = ''a yearly vaccine''\<rparr>"
    by (simp add: example_info_def)
  have n: "find (\<lambda>r. disease r = ''malaria'') example_info = None"
    by code_simp
  have s: "slot_predicted_disease (get_slot ?named) = Some ''malaria''"
    by (simp add: tracker_with_def)
  have s0: "slot_predicted_disease (get_slot ?bare) = None"
    by (simp add: tracker_with_def no_slots_def)
  have m: "''malaria'' \<noteq> []" by simp
  note flu = lookup_first_match_or_empty
    [where di = example_info and name = "''flu''" and tr = ?named and a = "''a viral infection''"
       and b = "''rest''" and c = "''a yearly vaccine''"]
  note mal = lookup_first_match_or_empty
    [where di = example_info and name = "''malaria''" and tr = ?named]
  note abs = lookup_first_match_or_empty
    [where di = example_info and name = "''malaria''" and tr = ?bare]
  have 1: "lookup example_info ''flu'' = Some (''a viral infection'', ''rest'', ''a yearly vaccine'')"
    using flu f by simp
  have 6: "most_likely_message example_info ''flu'' =
       MostLikelyWithDetails ''flu'' ''a viral infection'' ''rest'' ''a yearly vaccine''"
    using flu 1 by blast
  have 2: "lookup example_info ''malaria'' = None"
    using mal n by simp
  have 3: "most_likely_message example_info ''malaria'' = MostLikely ''malaria''"
    using mal 2 by blast
  have 4: "action_get_disease_info example_info ?named = ([NoDetails ''malaria''], [])"
    using mal 2 m s by blast
  have 5: "action_get_disease_info example_info ?bare = ([WhichDisease], [])"
    using abs s0 by blast
  from 1 f 6 2 3 4 5 show ?thesis by blast
qed

text \<open>
  C10. The info action returns the empty list of events on every path, so applying
  its events leaves every slot as it was.
\<close>

theorem info_action_sets_no_slot:
  "snd (action_get_disease_info di tr) = []
   \<and> apply_events (snd (action_get_disease_info di tr)) (get_slot tr) = get_slot tr"
  by (simp add: action_get_disease_info_def apply_events_def split: option.splits)

end
